theory Spec2Isabelle
  imports Complex_Main "HOL-Library.Word"
begin

unbundle bit_operations_syntax

section \<open>Values of the Go program\<close>

text \<open>
  The program is one file, \<^verbatim>\<open>main.go\<close>. Its \<^verbatim>\<open>int\<close> counters are modelled as
  \<^typ>\<open>int\<close> (they advance by one per second, so the 64-bit wrap-around is out of reach),
  bytes as \<^typ>\<open>8 word\<close>, the \<^verbatim>\<open>int64\<close> nanosecond clock as \<^typ>\<open>64 word\<close> (its
  subtraction wraps). The round-trip times are \<^verbatim>\<open>float64\<close> in the source. A sample is
  kept as the real number it stands for (a sample is finite; the quotient of line
  215 that makes it is left unrounded). The arithmetic of \<^verbatim>\<open>stats\<close> is \<^verbatim>\<open>float64\<close>
  arithmetic: see the next section.
\<close>

type_synonym byte = "8 word"
type_synonym int64 = "64 word"

text \<open>A run-time panic ends the program; an \<^verbatim>\<open>error\<close> is an ordinary result.\<close>

datatype panic = NegativeRepeatCount | SliceBoundsOutOfRange | IndexOutOfRange

datatype 'a outcome = Panic panic | Returns 'a

datatype error =
    DialError | WriteError | ReadError | DeadlineExceeded
  | HeaderTooShort | BufferTooShort | MessageTooShort | InvalidProtocol
  | LookupError

section \<open>Arithmetic in float64\<close>

text \<open>
  A \<^verbatim>\<open>float64\<close> is a finite number, an infinity or NaN. The result of every
  operation is the exact result rounded to the nearest binary64 number, ties to
  the even significand, as IEEE 754 defines it and the processor computes it:
  53 significant bits, the least exponent \<open>-1022\<close> (below it the spacing stays
  \<open>2 powr -1074\<close>), and an infinity when the rounded result reaches \<open>2 ^ 1024\<close>. Each
  operator of the source is one rounded operation, as the compiler emits it for
  amd64 at its default level (the language lets a target fuse the product and the
  sum of line 239 into one). The sign of a zero is not kept: \<^verbatim>\<open>stats\<close> divides only by
  conversions of \<^verbatim>\<open>int\<close>s, which are never the negative zero.
\<close>

datatype float64 = Fin real | PosInf | NegInf | NaN

text \<open>Rounding to the nearest integer, a tie to the even one.\<close>

definition rne :: "real \<Rightarrow> int" where
  "rne y =
     (let f = \<lfloor>y\<rfloor>; d = y - of_int f
      in if d < 1 / 2 then f
         else if 1 / 2 < d then f + 1
         else if even f then f else f + 1)"

text \<open>The exponent of the spacing of the binary64 numbers around \<open>x\<close>.\<close>

definition ulp_exponent :: "real \<Rightarrow> int" where
  "ulp_exponent x = max \<lfloor>log 2 \<bar>x\<bar>\<rfloor> (- 1022) - 52"

text \<open>The binary64 value of the real \<open>x\<close>.\<close>

definition fl :: "real \<Rightarrow> float64" where
  "fl x =
     (if x = 0 then Fin 0
      else
        (let u = 2 powr of_int (ulp_exponent x);
             r = of_int (rne (x / u)) * u
         in if 2 ^ 1024 \<le> \<bar>r\<bar> then (if 0 < x then PosInf else NegInf)
            else Fin r))"

text \<open>The conversion \<^verbatim>\<open>float64(n)\<close> of an \<^verbatim>\<open>int\<close>.\<close>

definition float64_of_int :: "int \<Rightarrow> float64" where
  "float64_of_int n = fl (of_int n)"

fun fneg :: "float64 \<Rightarrow> float64" where
  "fneg (Fin a) = Fin (- a)"
| "fneg PosInf = NegInf"
| "fneg NegInf = PosInf"
| "fneg NaN = NaN"

fun fadd :: "float64 \<Rightarrow> float64 \<Rightarrow> float64" where
  "fadd (Fin a) (Fin b) = fl (a + b)"
| "fadd NaN y = NaN"
| "fadd x NaN = NaN"
| "fadd PosInf NegInf = NaN"
| "fadd NegInf PosInf = NaN"
| "fadd PosInf y = PosInf"
| "fadd x PosInf = PosInf"
| "fadd NegInf y = NegInf"
| "fadd x NegInf = NegInf"

definition fsub :: "float64 \<Rightarrow> float64 \<Rightarrow> float64" where
  "fsub x y = fadd x (fneg y)"

fun fmul :: "float64 \<Rightarrow> float64 \<Rightarrow> float64" where
  "fmul (Fin a) (Fin b) = fl (a * b)"
| "fmul NaN y = NaN"
| "fmul x NaN = NaN"
| "fmul (Fin a) PosInf = (if a = 0 then NaN else if 0 < a then PosInf else NegInf)"
| "fmul (Fin a) NegInf = (if a = 0 then NaN else if 0 < a then NegInf else PosInf)"
| "fmul PosInf (Fin b) = (if b = 0 then NaN else if 0 < b then PosInf else NegInf)"
| "fmul NegInf (Fin b) = (if b = 0 then NaN else if 0 < b then NegInf else PosInf)"
| "fmul PosInf PosInf = PosInf"
| "fmul PosInf NegInf = NegInf"
| "fmul NegInf PosInf = NegInf"
| "fmul NegInf NegInf = PosInf"

text \<open>Division does not panic on a zero divisor; the zero divisor is the positive one.\<close>

fun fdiv :: "float64 \<Rightarrow> float64 \<Rightarrow> float64" where
  "fdiv (Fin a) (Fin b) =
     (if b \<noteq> 0 then fl (a / b)
      else if a = 0 then NaN
      else if 0 < a then PosInf
      else NegInf)"
| "fdiv NaN y = NaN"
| "fdiv x NaN = NaN"
| "fdiv (Fin a) PosInf = Fin 0"
| "fdiv (Fin a) NegInf = Fin 0"
| "fdiv PosInf (Fin b) = (if 0 \<le> b then PosInf else NegInf)"
| "fdiv NegInf (Fin b) = (if 0 \<le> b then NegInf else PosInf)"
| "fdiv PosInf y = NaN"
| "fdiv NegInf y = NaN"

text \<open>\<^verbatim>\<open>math.Sqrt\<close>, the correctly rounded square root.\<close>

fun fsqrt :: "float64 \<Rightarrow> float64" where
  "fsqrt (Fin a) = (if a < 0 then NaN else fl (sqrt a))"
| "fsqrt PosInf = PosInf"
| "fsqrt NegInf = NaN"
| "fsqrt NaN = NaN"

section \<open>The session statistics\<close>

record statsData =
  trans_s :: int
  recv :: int
  rtts :: "real list"

section \<open>Library functions the program calls\<close>

subsection \<open>encoding/binary, little endian\<close>

text \<open>
  Modelled from the spec: package \<^verbatim>\<open>encoding/binary\<close> is not under \<^verbatim>\<open>src/\<close>.
  \<^verbatim>\<open>binary.LittleEndian.PutUint64\<close> writes the spec's 8-byte little-endian value, the
  least significant byte first.
\<close>

definition PutUint64 :: "int64 \<Rightarrow> byte list" where
  "PutUint64 v =
     [ucast v, ucast (drop_bit 8 v), ucast (drop_bit 16 v), ucast (drop_bit 24 v),
      ucast (drop_bit 32 v), ucast (drop_bit 40 v), ucast (drop_bit 48 v),
      ucast (drop_bit 56 v)]"

text \<open>
  Modelled from the spec: \<^verbatim>\<open>binary.LittleEndian.Uint64\<close>, not under \<^verbatim>\<open>src/\<close>, reads
  the 8-byte little-endian value back.
\<close>

definition Uint64 :: "byte list \<Rightarrow> int64" where
  "Uint64 b =
     ucast (b ! 0) OR push_bit 8 (ucast (b ! 1)) OR push_bit 16 (ucast (b ! 2)) OR
     push_bit 24 (ucast (b ! 3)) OR push_bit 32 (ucast (b ! 4)) OR
     push_bit 40 (ucast (b ! 5)) OR push_bit 48 (ucast (b ! 6)) OR
     push_bit 56 (ucast (b ! 7))"

subsection \<open>golang.org/x/net: ICMP messages and IP headers\<close>

text \<open>
  The packages \<^verbatim>\<open>icmp\<close>, \<^verbatim>\<open>ipv4\<close> and \<^verbatim>\<open>ipv6\<close> are imported by \<^verbatim>\<open>main.go\<close> and are
  not under \<^verbatim>\<open>src/\<close>. What the program uses of them is written out here, from the
  wire layout that the spec gives: the four-byte message header (type, code,
  checksum), the echo body (identifier and sequence number, two bytes each in
  network byte order, then the data), and the header fields \<^verbatim>\<open>Len\<close>, \<^verbatim>\<open>TTL\<close> and
  \<^verbatim>\<open>HopLimit\<close> at their offsets in the IPv4 and IPv6 headers. An \<^verbatim>\<open>icmp.Type\<close> is an
  interface value: its dynamic type (\<^verbatim>\<open>ipv4.ICMPType\<close> or \<^verbatim>\<open>ipv6.ICMPType\<close>) is part
  of the value that \<^verbatim>\<open>==\<close> compares. The checksum function, the process identifier
  and the parsers of the message bodies that are not echoes are parameters,
  collected in \<open>sys\<close>: no statement below depends on what they return.
\<close>

datatype icmp_type = ICMPv4 byte | ICMPv6 byte

abbreviation ipv4_ICMPTypeEcho :: icmp_type where "ipv4_ICMPTypeEcho \<equiv> ICMPv4 8"
abbreviation ipv4_ICMPTypeEchoReply :: icmp_type where "ipv4_ICMPTypeEchoReply \<equiv> ICMPv4 0"
abbreviation ipv6_ICMPTypeEchoRequest :: icmp_type where "ipv6_ICMPTypeEchoRequest \<equiv> ICMPv6 128"
abbreviation ipv6_ICMPTypeEchoReply :: icmp_type where "ipv6_ICMPTypeEchoReply \<equiv> ICMPv6 129"

datatype MessageBody =
    Echo (ID: int) (Seq: int) (Data: "byte list")
  | OtherBody "byte list"

record Message =
  msgType :: icmp_type
  msgCode :: int
  msgChecksum :: int
  msgBody :: MessageBody

record sys =
  getpid :: int
  checksum :: "byte list \<Rightarrow> 16 word"
  parseOther :: "icmp_type \<Rightarrow> byte list \<Rightarrow> error + byte list"

text \<open>
  Modelled from the spec: \<^verbatim>\<open>Body.Marshal(proto)\<close> of package \<^verbatim>\<open>icmp\<close>, not under
  \<^verbatim>\<open>src/\<close>. The marshalled echo body is the four-byte identifier and sequence
  header followed by the data; the protocol number is not used. A body of another
  kind stands for the bytes it marshals to.
\<close>

fun body_Marshal :: "MessageBody \<Rightarrow> byte list" where
  "body_Marshal (Echo i s d) =
     [word_of_int (drop_bit 8 i), word_of_int i, word_of_int (drop_bit 8 s), word_of_int s] @ d"
| "body_Marshal (OtherBody bs) = bs"

text \<open>
  Modelled from the spec: \<^verbatim>\<open>msg.Marshal(nil)\<close> of package \<^verbatim>\<open>icmp\<close>, not under \<^verbatim>\<open>src/\<close>.
  The message is the header (type, code, checksum) and the marshalled body; the
  checksum is filled in where applicable, which is IPv4 (over IPv6 it is left to
  the kernel).
\<close>

definition Message_Marshal :: "sys \<Rightarrow> Message \<Rightarrow> error + byte list" where
  "Message_Marshal sy m =
     (let mtype = (case msgType m of ICMPv4 t \<Rightarrow> t | ICMPv6 t \<Rightarrow> t);
          b = [mtype, word_of_int (msgCode m), 0, 0] @ body_Marshal (msgBody m)
      in case msgType m of
           ICMPv6 _ \<Rightarrow> Inr b
         | ICMPv4 _ \<Rightarrow>
             (let s = checksum sy b
              in Inr (b[2 := b ! 2 XOR ucast s, 3 := b ! 3 XOR ucast (drop_bit 8 s)])))"

text \<open>
  Modelled from the spec: the echo parser of package \<^verbatim>\<open>icmp\<close>, not under \<^verbatim>\<open>src/\<close>,
  the inverse of the layout above. It fails on fewer than four bytes (a truncated
  buffer).
\<close>

definition parseEcho :: "byte list \<Rightarrow> error + MessageBody" where
  "parseEcho b =
     (if length b < 4 then Inl MessageTooShort
      else Inr (Echo (uint (b ! 0) * 256 + uint (b ! 1))
                     (uint (b ! 2) * 256 + uint (b ! 3))
                     (drop 4 b)))"

text \<open>
  Modelled from the spec: \<^verbatim>\<open>icmp.ParseMessage(proto, b)\<close>, not under \<^verbatim>\<open>src/\<close>. The
  protocol number (1 for ICMP, 58 for ICMPv6) decides the dynamic type of the
  message type; the body of an echo request or reply is parsed as an echo.
\<close>

definition ParseMessage :: "sys \<Rightarrow> int \<Rightarrow> byte list \<Rightarrow> error + Message" where
  "ParseMessage sy proto b =
     (if length b < 4 then Inl MessageTooShort
      else if proto \<noteq> 1 \<and> proto \<noteq> 58 then Inl InvalidProtocol
      else
        (let t = (if proto = 1 then ICMPv4 (b ! 0) else ICMPv6 (b ! 0));
             r = (if t = ipv4_ICMPTypeEcho \<or> t = ipv4_ICMPTypeEchoReply \<or>
                     t = ipv6_ICMPTypeEchoRequest \<or> t = ipv6_ICMPTypeEchoReply
                  then parseEcho (drop 4 b)
                  else (case parseOther sy t (drop 4 b) of
                          Inl e \<Rightarrow> Inl e
                        | Inr bs \<Rightarrow> Inr (OtherBody bs)))
         in case r of
              Inl e \<Rightarrow> Inl e
            | Inr body \<Rightarrow>
                Inr \<lparr>msgType = t, msgCode = uint (b ! 1),
                     msgChecksum = uint (b ! 2) * 256 + uint (b ! 3), msgBody = body\<rparr>))"

text \<open>
  Modelled from the spec: \<^verbatim>\<open>icmp.ParseIPv4Header\<close>, not under \<^verbatim>\<open>src/\<close>. It gives the
  variable length of the IPv4 header (the low four bits of the first byte, in
  32-bit words) and the TTL (byte 8), the two fields the program reads, and fails
  on a truncated buffer.
\<close>

definition ParseIPv4Header :: "byte list \<Rightarrow> error + (int \<times> int)" where
  "ParseIPv4Header b =
     (if length b < 20 then Inl HeaderTooShort
      else
        (let hdrlen = push_bit 2 (uint (b ! 0 AND 0x0f))
         in if hdrlen > int (length b) then Inl BufferTooShort
            else Inr (hdrlen, uint (b ! 8))))"

text \<open>
  Modelled from the spec: \<^verbatim>\<open>ipv6.ParseHeader\<close>, not under \<^verbatim>\<open>src/\<close>. It reads the fixed
  IPv6 base header of 40 bytes and gives the hop limit (byte 7), the field the
  program reads.
\<close>

definition ipv6_ParseHeader :: "byte list \<Rightarrow> error + int" where
  "ipv6_ParseHeader b = (if length b < 40 then Inl HeaderTooShort else Inr (uint (b ! 7)))"

text \<open>
  Modelled from the spec: \<^verbatim>\<open>c.Read(data)\<close> of package \<^verbatim>\<open>net\<close>, not under \<^verbatim>\<open>src/\<close>, when
  a datagram \<open>pkt\<close> is read into the buffer: the front of the buffer is overwritten,
  the buffer keeps its length, and the program ignores the count that is returned.
\<close>

definition conn_Read :: "byte list \<Rightarrow> byte list \<Rightarrow> byte list" where
  "conn_Read data pkt = take (length data) pkt @ drop (length pkt) data"

section \<open>What the program prints\<close>

record report =
  transmitted :: int
  received :: int
  loss :: float64
  rttMin :: float64
  rttAvg :: float64
  rttMax :: float64
  rttStd :: float64

datatype out_line =
    UsageLine
  | UnknownHost
  | Banner string string int
  | CountMustBePositive
  | FailedToDial
  | FailedToMarshal
  | RequestTimeout int
  | PacketFrom string int string int real
  | Statistics report

section \<open>The environment of a run\<close>

text \<open>
  One round of the receive loop of a probe: the clock at the loop condition, the
  time at which \<^verbatim>\<open>c.Read\<close> has something to return, what that is (\<open>None\<close> is a
  read error of the connection), and the wall clock read when the round-trip time
  is computed. Times are in nanoseconds.
\<close>

record arrival =
  clock :: int
  read_at :: int
  packet :: "byte list option"
  arrival_nano :: int64

record probe_env =
  dial_fails :: bool
  send_nano :: int64
  write_fails :: bool
  startTime :: int
  arrivals :: "arrival list"

record ip_addr =
  ip_String :: string
  is_v4 :: bool

text \<open>
  The signal goroutine of \<^verbatim>\<open>main\<close> is represented by its effect on the channel
  \<^verbatim>\<open>done\<close>: \<open>cancelled W i\<close> says that the channel holds a value when it is polled at
  the end of iteration \<open>i\<close>.
\<close>

record world =
  ParseIP :: "string \<Rightarrow> ip_addr option"
  LookupIP :: "string \<Rightarrow> error + ip_addr list"
  probe :: "nat \<Rightarrow> probe_env"
  cancelled :: "nat \<Rightarrow> bool"

section \<open>The program\<close>

definition resolve :: "world \<Rightarrow> string \<Rightarrow> (ip_addr option \<times> bool) outcome" where
  "resolve W host =
     (case ParseIP W host of
        Some ip \<Rightarrow> Returns (Some ip, \<not> is_v4 ip)
      | None \<Rightarrow>
          (case LookupIP W host of
             Inl e \<Rightarrow> Returns (None, False)
           | Inr ips \<Rightarrow>
               (case ips of
                  [] \<Rightarrow> Panic IndexOutOfRange
                | ip # _ \<Rightarrow> Returns (Some ip, \<not> is_v4 ip))))"

text \<open>
  \<open>echo\<close> returns what it printed, the marshalled message and the error.
  \<^verbatim>\<open>strings.Repeat\<close> panics on a negative count.
\<close>

definition echo :: "sys \<Rightarrow> int64 \<Rightarrow> int \<Rightarrow> bool \<Rightarrow> int \<Rightarrow> (out_line list \<times> byte list \<times> error option) outcome" where
  "echo sy now seq isIPv6 dataSize =
     (if dataSize - 8 < 0 then Panic NegativeRepeatCount
      else
        (let timestamp = PutUint64 now;
             padding = replicate (nat (dataSize - 8)) (0x20 :: byte);
             msg = \<lparr>msgType = (if isIPv6 then ipv6_ICMPTypeEchoRequest else ipv4_ICMPTypeEcho),
                    msgCode = 0, msgChecksum = 0,
                    msgBody = Echo (getpid sy AND 0xffff) seq (timestamp @ padding)\<rparr>
         in case Message_Marshal sy msg of
              Inl e \<Rightarrow> Returns ([FailedToMarshal], [], Some e)
            | Inr data \<Rightarrow> Returns ([], data, None)))"

text \<open>\<^verbatim>\<open>timeout := time.Second\<close>, in nanoseconds.\<close>

definition timeout :: int where
  "timeout = 1000000000"

text \<open>
  Lines 179 to 203: the headers and the message are parsed from the buffer. The
  result is the value of \<^verbatim>\<open>ttl\<close> afterwards and the message or the error.
\<close>

definition parse_reply :: "sys \<Rightarrow> bool \<Rightarrow> byte list \<Rightarrow> int \<Rightarrow> int \<times> (error + Message)" where
  "parse_reply sy isIPv6 data ttl =
     (if isIPv6 then
        (case ipv6_ParseHeader data of
           Inl e \<Rightarrow> (ttl, Inl e)
         | Inr hopLimit \<Rightarrow> (hopLimit, ParseMessage sy 58 data))
      else
        (case ParseIPv4Header data of
           Inl e \<Rightarrow> (ttl, Inl e)
         | Inr (len, ttl') \<Rightarrow> (ttl', ParseMessage sy 1 (drop (nat len) data))))"

text \<open>
  Lines 213 to 216: \<^verbatim>\<open>body = body[4:]\<close> and
  \<^verbatim>\<open>int64(binary.LittleEndian.Uint64(body[:8]))\<close>, with the bounds checks of the two
  slice expressions (the slice comes from \<^verbatim>\<open>make\<close>, its capacity is its length).
\<close>

definition sendTimestamp :: "byte list \<Rightarrow> int64 outcome" where
  "sendTimestamp body =
     (if length body < 4 then Panic SliceBoundsOutOfRange
      else
        (let body' = drop 4 body
         in if length body' < 8 then Panic SliceBoundsOutOfRange
            else Returns (Uint64 (take 8 body'))))"

text \<open>
  Modelled from the spec: \<^verbatim>\<open>c.Read(data)\<close> under the read deadline of the
  connection, package \<^verbatim>\<open>net\<close>, not under \<^verbatim>\<open>src/\<close>: it fails when the deadline comes
  first. The result is the error or the buffer after the read.
\<close>

definition conn_Read_deadline :: "int \<Rightarrow> byte list \<Rightarrow> arrival \<Rightarrow> error + byte list" where
  "conn_Read_deadline deadline data a =
     (if deadline \<le> read_at a then Inl DeadlineExceeded
      else
        (case packet a of
           None \<Rightarrow> Inl ReadError
         | Some pkt \<Rightarrow> Inr (conn_Read data pkt)))"

text \<open>
  The receive loop of \<^verbatim>\<open>pingOnce\<close>, lines 173 to 219, one round per element of the
  list. The deadline was set on the connection before the loop (line 171) and no
  statement of the loop sets it again, so it is a parameter that the recursion
  passes on. When the list is used up nothing more arrives, and \<^verbatim>\<open>c.Read\<close> fails
  at the deadline. Leaving the loop by its condition reaches the last \<^verbatim>\<open>return\<close>
  with \<^verbatim>\<open>err\<close> still \<^verbatim>\<open>nil\<close>.
\<close>

fun recv_loop :: "sys \<Rightarrow> bool \<Rightarrow> int \<Rightarrow> int \<Rightarrow> byte list \<Rightarrow> int \<Rightarrow> arrival list \<Rightarrow> (int \<times> real \<times> error option) outcome" where
  "recv_loop sy isIPv6 start deadline data ttl [] = Returns (ttl, 0, Some DeadlineExceeded)"
| "recv_loop sy isIPv6 start deadline data ttl (a # rest) =
     (if \<not> (clock a - start < timeout) then Returns (ttl, 0, None)
      else
        (case conn_Read_deadline deadline data a of
           Inl e \<Rightarrow> Returns (ttl, 0, Some e)
         | Inr data' \<Rightarrow>
             (let parsed = parse_reply sy isIPv6 data' ttl;
                  ttl' = fst parsed
              in case snd parsed of
                   Inl e \<Rightarrow> Returns (ttl', 0, Some e)
                 | Inr replyMsg \<Rightarrow>
                     if msgType replyMsg = ipv4_ICMPTypeEchoReply \<or>
                        msgType replyMsg = ipv6_ICMPTypeEchoReply
                     then
                       (case sendTimestamp (body_Marshal (msgBody replyMsg)) of
                          Panic p \<Rightarrow> Panic p
                        | Returns ts \<Rightarrow>
                            Returns (ttl', real_of_int (sint (arrival_nano a - ts)) / 1000000, None))
                     else recv_loop sy isIPv6 start deadline data' ttl' rest)))"

text \<open>
  \<open>pingOnce\<close> returns what it printed and the triple \<^verbatim>\<open>(ttl, rtt, err)\<close>. The error of
  \<open>echo\<close> is overwritten by the one of \<^verbatim>\<open>c.Write\<close>; a write that succeeds has written
  the whole message.
\<close>

definition pingOnce :: "sys \<Rightarrow> probe_env \<Rightarrow> int \<Rightarrow> string \<Rightarrow> bool \<Rightarrow> int \<Rightarrow> (out_line list \<times> int \<times> real \<times> error option) outcome" where
  "pingOnce sy w seq ip isIPv6 dataSize =
     (if dial_fails w then Returns ([FailedToDial], 0, 0, Some DialError)
      else
        (case echo sy (send_nano w) seq isIPv6 dataSize of
           Panic p \<Rightarrow> Panic p
         | Returns (printed, echoMsg, _) \<Rightarrow>
             if write_fails w then Returns (printed, 0, 0, Some WriteError)
             else
               (let size = length echoMsg;
                    data = replicate (if isIPv6 then size else size + 20) (0 :: byte);
                    deadline = startTime w + timeout
                in case recv_loop sy isIPv6 (startTime w) deadline data 0 (arrivals w) of
                     Panic p \<Rightarrow> Panic p
                   | Returns r \<Rightarrow> Returns (printed, r))))"

text \<open>
  The body of the two probe loops, lines 80 to 95 and 110 to 125, which are the
  same text. The state is the \<^verbatim>\<open>statsData\<close> and the lines printed so far.
\<close>

definition loop_body :: "sys \<Rightarrow> world \<Rightarrow> string \<Rightarrow> bool \<Rightarrow> int \<Rightarrow> int \<Rightarrow> statsData \<times> out_line list \<Rightarrow> (statsData \<times> out_line list) outcome" where
  "loop_body sy W ip isIPv6 dataSize i st =
     (case pingOnce sy (probe W (nat i)) i ip isIPv6 dataSize of
        Panic p \<Rightarrow> Panic p
      | Returns (printed, ttl, rtt, err) \<Rightarrow>
          (let s = fst st;
               out = snd st @ printed;
               s1 = (case err of
                       Some e \<Rightarrow> s
                     | None \<Rightarrow> s\<lparr>recv := recv s + 1, rtts := rtts s @ [rtt]\<rparr>);
               out1 = (case err of
                         Some e \<Rightarrow> out @ [RequestTimeout i]
                       | None \<Rightarrow>
                           out @ [PacketFrom ip i (if isIPv6 then ''hlim'' else ''ttl'') ttl rtt])
           in Returns (s1\<lparr>trans_s := trans_s s1 + 1\<rparr>, out1)))"

function pingForTimes_from :: "sys \<Rightarrow> world \<Rightarrow> string \<Rightarrow> bool \<Rightarrow> int \<Rightarrow> int \<Rightarrow> int \<Rightarrow> statsData \<times> out_line list \<Rightarrow> (statsData \<times> out_line list) outcome" where
  "pingForTimes_from sy W ip isIPv6 dataSize count i st =
     (if i < count then
        (case loop_body sy W ip isIPv6 dataSize i st of
           Panic p \<Rightarrow> Panic p
         | Returns st' \<Rightarrow>
             if cancelled W (nat i) then Returns st'
             else pingForTimes_from sy W ip isIPv6 dataSize count (i + 1) st')
      else Returns st)"
  by pat_completeness auto
termination
  by (relation "measure (\<lambda>(sy, W, ip, isIPv6, dataSize, count, i, st). nat (count - i))") auto

definition pingForTimes :: "sys \<Rightarrow> world \<Rightarrow> string \<Rightarrow> bool \<Rightarrow> int \<Rightarrow> int \<Rightarrow> statsData \<times> out_line list \<Rightarrow> (statsData \<times> out_line list) outcome" where
  "pingForTimes sy W ip isIPv6 dataSize count st = pingForTimes_from sy W ip isIPv6 dataSize count 0 st"

text \<open>The unbounded loop may run forever: then its value is \<open>None\<close>.\<close>

partial_function (option) pingForever_from :: "sys \<Rightarrow> world \<Rightarrow> string \<Rightarrow> bool \<Rightarrow> int \<Rightarrow> int \<Rightarrow> statsData \<times> out_line list \<Rightarrow> (statsData \<times> out_line list) outcome option" where
  "pingForever_from sy W ip isIPv6 dataSize i st =
     (case loop_body sy W ip isIPv6 dataSize i st of
        Panic p \<Rightarrow> Some (Panic p)
      | Returns st' \<Rightarrow>
          if cancelled W (nat i) then Some (Returns st')
          else pingForever_from sy W ip isIPv6 dataSize (i + 1) st')"

definition pingForever :: "sys \<Rightarrow> world \<Rightarrow> string \<Rightarrow> bool \<Rightarrow> int \<Rightarrow> statsData \<times> out_line list \<Rightarrow> (statsData \<times> out_line list) outcome option" where
  "pingForever sy W ip isIPv6 dataSize st = pingForever_from sy W ip isIPv6 dataSize 0 st"

subsection \<open>Statistics\<close>

text \<open>
  The first loop of \<open>stats\<close>, lines 227 to 235, from index \<open>i\<close>. The least and the
  greatest sample are samples; the sum is a \<^verbatim>\<open>float64\<close>.
\<close>

function stats_scan :: "statsData \<Rightarrow> int \<Rightarrow> real \<Rightarrow> real \<Rightarrow> float64 \<Rightarrow> (real \<times> real \<times> float64) outcome" where
  "stats_scan s i rMin rMax rAvg =
     (if i < recv s then
        (if 0 \<le> i \<and> i < int (length (rtts s)) then
           (let x = rtts s ! nat i;
                rMin' = (if x < rMin then x else rMin);
                rMax' = (if x > rMax then x else rMax)
            in stats_scan s (i + 1) rMin' rMax' (fadd rAvg (Fin x)))
         else Panic IndexOutOfRange)
      else Returns (rMin, rMax, rAvg))"
  by pat_completeness auto
termination
  by (relation "measure (\<lambda>(s, i, rMin, rMax, rAvg). nat (recv s - i))") auto

text \<open>The second loop, lines 238 to 240.\<close>

function stats_dev :: "statsData \<Rightarrow> float64 \<Rightarrow> int \<Rightarrow> float64 \<Rightarrow> float64 outcome" where
  "stats_dev s rAvg i rStd =
     (if i < recv s then
        (if 0 \<le> i \<and> i < int (length (rtts s)) then
           (let x = Fin (rtts s ! nat i)
            in stats_dev s rAvg (i + 1) (fadd rStd (fmul (fsub x rAvg) (fsub x rAvg))))
         else Panic IndexOutOfRange)
      else Returns rStd)"
  by pat_completeness auto
termination
  by (relation "measure (\<lambda>(s, rAvg, i, rStd). nat (recv s - i))") auto

text \<open>
  \<open>stats\<close> returns the values it passes to the two \<^verbatim>\<open>Printf\<close> calls; rounding to three
  decimals is left to the formatter and not modelled.
\<close>

definition stats :: "statsData \<Rightarrow> report outcome" where
  "stats s =
     (let finish = (\<lambda>rMin rAvg rMax rStd.
            Returns \<lparr>transmitted = trans_s s, received = recv s,
                     loss = fmul (fsub (Fin 1)
                                   (fdiv (float64_of_int (recv s)) (float64_of_int (trans_s s))))
                              (Fin 100),
                     rttMin = rMin, rttAvg = rAvg, rttMax = rMax, rttStd = rStd\<rparr>)
      in if recv s > 0 then
           (case rtts s of
              [] \<Rightarrow> Panic IndexOutOfRange
            | x0 # _ \<Rightarrow>
                (case stats_scan s 1 x0 x0 (Fin x0) of
                   Panic p \<Rightarrow> Panic p
                 | Returns (rMin, rMax, rSum) \<Rightarrow>
                     (let rAvg = fdiv rSum (float64_of_int (recv s))
                      in case stats_dev s rAvg 0 (Fin 0) of
                           Panic p \<Rightarrow> Panic p
                         | Returns sq \<Rightarrow>
                             finish (Fin rMin) rAvg (Fin rMax)
                               (fsqrt (fdiv sq (float64_of_int (recv s)))))))
         else finish (Fin 0) (Fin 0) (Fin 0) (Fin 0))"

subsection \<open>main\<close>

text \<open>
  \<open>main\<close> gets the value of the flag \<^verbatim>\<open>-c\<close> and the remaining arguments, as
  \<^verbatim>\<open>flag.Parse\<close> leaves them. It returns the lines printed and the variable \<^verbatim>\<open>s\<close> as
  it is when \<open>main\<close> returns (\<open>None\<close> before line 280, where it is declared).
  The result \<open>None\<close> of \<open>main\<close> itself is a run that never ends. \<open>then_stats\<close> is
  line 296, reached from either loop.
\<close>

definition main :: "sys \<Rightarrow> world \<Rightarrow> int \<Rightarrow> string list \<Rightarrow> (out_line list \<times> statsData option) outcome option" where
  "main sy W count args =
     (let size = 56
      in if length args \<noteq> 1 then Some (Returns ([UsageLine], None))
         else
           (let host = args ! 0
            in case resolve W host of
                 Panic p \<Rightarrow> Some (Panic p)
               | Returns (None, isIPv6) \<Rightarrow> Some (Returns ([UnknownHost], None))
               | Returns (Some ip, isIPv6) \<Rightarrow>
                   (let s = \<lparr>trans_s = 0, recv = 0, rtts = []\<rparr>;
                        out = [Banner host (ip_String ip) size];
                        then_stats = (\<lambda>looped.
                          case looped of
                            None \<Rightarrow> None
                          | Some (Panic p) \<Rightarrow> Some (Panic p)
                          | Some (Returns (s', out')) \<Rightarrow>
                              (case stats s' of
                                 Panic p \<Rightarrow> Some (Panic p)
                               | Returns r \<Rightarrow> Some (Returns (out' @ [Statistics r], Some s'))))
                    in if count \<noteq> 0 then
                         (if count < 0
                          then Some (Returns (out @ [CountMustBePositive], Some s))
                          else then_stats
                                 (Some (pingForTimes sy W (ip_String ip) isIPv6 size count (s, out))))
                       else then_stats (pingForever sy W (ip_String ip) isIPv6 size (s, out)))))"

section \<open>Notions used in the statements\<close>

text \<open>The sequence numbers of the per-probe lines of an output, in order.\<close>

fun probe_seqs :: "out_line list \<Rightarrow> int list" where
  "probe_seqs [] = []"
| "probe_seqs (RequestTimeout i # out) = i # probe_seqs out"
| "probe_seqs (PacketFrom ip i param ttl rtt # out) = i # probe_seqs out"
| "probe_seqs (l # out) = probe_seqs out"

text \<open>The statistics blocks of an output.\<close>

fun statistics_of :: "out_line list \<Rightarrow> report list" where
  "statistics_of [] = []"
| "statistics_of (Statistics r # out) = r # statistics_of out"
| "statistics_of (l # out) = statistics_of out"

text \<open>
  The statistics in the words of the specification, each operation a \<^verbatim>\<open>float64\<close>
  operation and the sums taken from the left: the mean is the sum divided by the
  number of samples, the standard deviation is the square root of the sum of the
  squared distances to the mean divided by that number (the population standard
  deviation).
\<close>

definition spec_mean :: "real list \<Rightarrow> float64" where
  "spec_mean xs =
     fdiv (foldl fadd (Fin (hd xs)) (map Fin (tl xs))) (float64_of_int (int (length xs)))"

definition spec_std_dev :: "real list \<Rightarrow> float64" where
  "spec_std_dev xs =
     fsqrt (fdiv (foldl fadd (Fin 0)
                    (map (\<lambda>x. fmul (fsub (Fin x) (spec_mean xs)) (fsub (Fin x) (spec_mean xs))) xs))
              (float64_of_int (int (length xs))))"

text \<open>The invariant of the session statistics.\<close>

definition stats_inv :: "statsData \<Rightarrow> bool" where
  "stats_inv s = (recv s \<le> trans_s s \<and> int (length (rtts s)) = recv s)"

text \<open>
  The loop body run for the \<open>k\<close> sequence numbers from \<open>i\<close> on, with no look at
  the channel: the state after each iteration of either loop is such a value.
\<close>

fun iterations :: "sys \<Rightarrow> world \<Rightarrow> string \<Rightarrow> bool \<Rightarrow> int \<Rightarrow> int \<Rightarrow> nat \<Rightarrow> statsData \<times> out_line list \<Rightarrow> (statsData \<times> out_line list) outcome" where
  "iterations sy W ip isIPv6 dataSize i 0 st = Returns st"
| "iterations sy W ip isIPv6 dataSize i (Suc k) st =
     (case loop_body sy W ip isIPv6 dataSize i st of
        Panic p \<Rightarrow> Panic p
      | Returns st' \<Rightarrow> iterations sy W ip isIPv6 dataSize (i + 1) k st')"

section \<open>Concrete inputs\<close>

text \<open>A system with process identifier \<open>0x1234\<close>, used where a theorem is run on an input.\<close>

definition demo_sys :: sys where
  "demo_sys = \<lparr>getpid = 4660, checksum = (\<lambda>b. 0), parseOther = (\<lambda>t b. Inr b)\<rparr>"

text \<open>
  An IPv4 header of 20 bytes with TTL 64, the request that \<open>echo\<close> builds for eight
  data bytes sent at \<open>0x0102030405060708\<close>, and the reply to it.
\<close>

definition demo_header :: "byte list" where
  "demo_header = [0x45, 0, 0, 36, 0, 0, 0, 0, 64, 1, 0, 0, 127, 0, 0, 1, 127, 0, 0, 1]"

definition demo_request :: "byte list" where
  "demo_request = [8, 0, 0, 0, 0x12, 0x34, 0, 1, 8, 7, 6, 5, 4, 3, 2, 1]"

definition demo_reply :: "byte list" where
  "demo_reply = [0, 0, 0xff, 0xff, 0x12, 0x34, 0, 1, 8, 7, 6, 5, 4, 3, 2, 1]"

text \<open>
  A probe to the loopback address: the socket first delivers the request itself,
  then the reply, 2.5 ms after the request was built.
\<close>

definition demo_probe :: probe_env where
  "demo_probe =
     \<lparr>dial_fails = False, send_nano = 0x0102030405060708, write_fails = False, startTime = 0,
      arrivals =
        [\<lparr>clock = 10, read_at = 1000, packet = Some (demo_header @ demo_request),
          arrival_nano = 0\<rparr>,
         \<lparr>clock = 2000, read_at = 2500000, packet = Some (demo_header @ demo_reply),
          arrival_nano = 0x0102030405060708 + 2500000\<rparr>]\<rparr>"

text \<open>
  A probe whose only datagram, the request itself, is read just before the
  deadline; when the loop condition is evaluated again the second has passed.
\<close>

definition late_probe :: probe_env where
  "late_probe =
     \<lparr>dial_fails = False, send_nano = 0x0102030405060708, write_fails = False, startTime = 0,
      arrivals =
        [\<lparr>clock = 10, read_at = 999999000, packet = Some (demo_header @ demo_request),
          arrival_nano = 0\<rparr>,
         \<lparr>clock = 1000000100, read_at = 1000000200, packet = None, arrival_nano = 0\<rparr>]\<rparr>"

text \<open>
  A probe answered by an echo reply without data, under an IPv4 header of 24 bytes
  (one option word).
\<close>

definition short_reply_probe :: probe_env where
  "short_reply_probe =
     \<lparr>dial_fails = False, send_nano = 0x0102030405060708, write_fails = False, startTime = 0,
      arrivals =
        [\<lparr>clock = 10, read_at = 1000,
          packet = Some ([0x46, 0, 0, 32, 0, 0, 0, 0, 64, 1, 0, 0, 127, 0, 0, 1, 127, 0, 0, 1,
                          1, 1, 1, 0] @ [0, 0, 0xff, 0xff, 0x12, 0x34, 0, 1]),
          arrival_nano = 0\<rparr>]\<rparr>"

text \<open>A probe that cannot open its socket.\<close>

definition no_route_probe :: probe_env where
  "no_route_probe =
     \<lparr>dial_fails = True, send_nano = 0, write_fails = False, startTime = 0, arrivals = []\<rparr>"

text \<open>
  A run against the loopback address: probe 0 is answered, the later ones cannot
  open their socket, and the interrupt is seen at the end of iteration 2.
\<close>

definition demo_world :: world where
  "demo_world =
     \<lparr>ParseIP = (\<lambda>h. if h = ''127.0.0.1'' then Some \<lparr>ip_String = h, is_v4 = True\<rparr> else None),
      LookupIP = (\<lambda>h. Inl LookupError),
      probe = (\<lambda>i. if i = 0 then demo_probe else no_route_probe),
      cancelled = (\<lambda>i. i = 2)\<rparr>"

text \<open>The same run with every probe as \<open>late_probe\<close>.\<close>

definition late_world :: world where
  "late_world = demo_world\<lparr>probe := (\<lambda>i. late_probe)\<rparr>"

section \<open>Little-endian round trip\<close>

lemmas evals =
  pingOnce_def echo_def Message_Marshal_def PutUint64_def Uint64_def Let_def
  conn_Read_deadline_def conn_Read_def parse_reply_def ParseIPv4Header_def ipv6_ParseHeader_def
  ParseMessage_def parseEcho_def sendTimestamp_def timeout_def
  demo_sys_def demo_header_def demo_request_def demo_reply_def



section \<open>The echo request and its reply\<close>

lemma echo_layout:
  assumes "echo sy now seq isIPv6 dataSize = Returns (printed, req, err)"
  shows "drop 4 req = body_Marshal (Echo (getpid sy AND 0xffff) seq (PutUint64 now @ replicate (nat (dataSize - 8)) 0x20))"
    and "length req = 8 + nat dataSize" and "8 \<le> dataSize" and "err = None" and "printed = []"
  using assms
  by (auto simp: echo_def Message_Marshal_def Let_def PutUint64_def split: if_splits)





section \<open>The receive loop\<close>

lemma ParseMessage_type:
  assumes "ParseMessage sy proto b = Inr m"
  shows "msgType m = (if proto = 1 then ICMPv4 (b ! 0) else ICMPv6 (b ! 0))"
  using assms
  by (auto simp: ParseMessage_def Let_def split: if_splits sum.splits)

lemma parse_reply_version:
  assumes "parse_reply sy isIPv6 data ttl = (ttl', Inr m)"
  shows "if isIPv6 then (\<exists>t. msgType m = ICMPv6 t) else (\<exists>t. msgType m = ICMPv4 t)"
  using assms
  by (auto simp: parse_reply_def dest!: ParseMessage_type split: if_splits sum.splits prod.splits)

lemma reply_test:
  assumes "parse_reply sy isIPv6 data ttl = (ttl', Inr m)"
  shows "(msgType m = ipv4_ICMPTypeEchoReply \<or> msgType m = ipv6_ICMPTypeEchoReply) \<longleftrightarrow>
         msgType m = (if isIPv6 then ipv6_ICMPTypeEchoReply else ipv4_ICMPTypeEchoReply)"
  using parse_reply_version [OF assms] by (auto split: if_splits)

text \<open>
  Claim C2. In a round of the receive loop whose read and parse succeed, the
  message is decoded exactly when its type is the echo reply of the IP version in
  use. For any other type the result of the round is the result of the remaining
  rounds: no error is returned for the skipped message, and the loop goes on with
  the same start time and the same deadline.
\<close>

theorem reply_type_validated:
  assumes "clock a - start < timeout"
      and "conn_Read_deadline deadline data a = Inr data'"
      and "parse_reply sy isIPv6 data' ttl = (ttl', Inr m)"
  shows "recv_loop sy isIPv6 start deadline data ttl (a # rest) =
           (if msgType m = (if isIPv6 then ipv6_ICMPTypeEchoReply else ipv4_ICMPTypeEchoReply)
            then (case sendTimestamp (body_Marshal (msgBody m)) of
                    Panic p \<Rightarrow> Panic p
                  | Returns ts \<Rightarrow>
                      Returns (ttl', real_of_int (sint (arrival_nano a - ts)) / 1000000, None))
            else recv_loop sy isIPv6 start deadline data' ttl' rest)"
  using assms reply_test [OF assms(3)]
  by (simp add: Let_def split: outcome.split)

theorem reply_type_validated_witness:
  "recv_loop demo_sys False 0 1000000000 (replicate 36 0) 0 (arrivals demo_probe) =
     recv_loop demo_sys False 0 1000000000 (demo_header @ demo_request) 64 (tl (arrivals demo_probe))"
proof -
  let ?a = "\<lparr>clock = 10, read_at = 1000, packet = Some (demo_header @ demo_request),
             arrival_nano = 0\<rparr>"
  have c: "clock ?a - 0 < timeout"
    by (simp add: timeout_def)
  have r: "conn_Read_deadline 1000000000 (replicate 36 0) ?a = Inr (demo_header @ demo_request)"
    by (simp add: evals)
  have p: "parse_reply demo_sys False (demo_header @ demo_request) 0 =
             (64, Inr \<lparr>msgType = ipv4_ICMPTypeEcho, msgCode = 0, msgChecksum = 0,
                        msgBody = Echo 0x1234 1 [8, 7, 6, 5, 4, 3, 2, 1]\<rparr>)"
    by (simp add: evals)
  from reply_type_validated [OF c r p, of "tl (arrivals demo_probe)"] show ?thesis
    by (simp add: demo_probe_def)
qed

subsection \<open>Bounds of the timestamp slices\<close>

lemma ParseMessage_echo_reply:
  assumes "ParseMessage sy proto b = Inr m"
      and "msgType m = ipv4_ICMPTypeEchoReply \<or> msgType m = ipv6_ICMPTypeEchoReply"
  shows "\<exists>i s. msgBody m = Echo i s (drop 8 b)"
  using assms
  by (auto simp: ParseMessage_def parseEcho_def Let_def split: if_splits sum.splits)

lemma ParseIPv4Header_Len:
  assumes "ParseIPv4Header b = Inr (len, t)"
  shows "0 \<le> len \<and> len \<le> 60 \<and> len \<le> int (length b)"
proof -
  have "uint (b ! 0 AND 0x0f) \<le> 15"
    by (simp add: uint_and AND_upper2)
  then show ?thesis
    using assms
    by (auto simp: ParseIPv4Header_def Let_def push_bit_eq_mult split: if_splits)
qed

lemma length_conn_Read: "length (conn_Read data pkt) = length data"
  by (simp add: conn_Read_def)

lemma length_conn_Read_deadline:
  "conn_Read_deadline deadline data a = Inr data' \<Longrightarrow> length data' = length data"
  by (auto simp: conn_Read_deadline_def length_conn_Read split: if_splits option.splits)

lemma parse_reply_echo_reply:
  assumes "parse_reply sy isIPv6 data ttl = (ttl', Inr m)"
      and "msgType m = ipv4_ICMPTypeEchoReply \<or> msgType m = ipv6_ICMPTypeEchoReply"
  shows "\<exists>i s d. msgBody m = Echo i s d \<and>
           (if isIPv6 then length d = length data - 8 else length data - 68 \<le> length d)"
proof (cases isIPv6)
  case True
  with assms(1) have "ParseMessage sy 58 data = Inr m"
    by (auto simp: parse_reply_def split: sum.splits)
  from ParseMessage_echo_reply [OF this assms(2)] True show ?thesis
    by auto
next
  case False
  with assms(1) obtain len t where h: "ParseIPv4Header data = Inr (len, t)"
    and p: "ParseMessage sy 1 (drop (nat len) data) = Inr m"
    by (auto simp: parse_reply_def split: sum.splits prod.splits)
  from ParseIPv4Header_Len [OF h] have "nat len \<le> 60" by linarith
  with ParseMessage_echo_reply [OF p assms(2)] False show ?thesis
    by auto
qed

lemma sendTimestamp_body:
  "sendTimestamp (body_Marshal (Echo i s d)) =
     (if 8 \<le> length d then Returns (Uint64 (take 8 d)) else Panic SliceBoundsOutOfRange)"
  by (simp add: sendTimestamp_def)

lemma short_reply_panics:
  "pingOnce demo_sys short_reply_probe 1 ''127.0.0.1'' False 8 = Panic SliceBoundsOutOfRange"
  by (simp add: evals short_reply_probe_def)

text \<open>
  Claim C10. When a round of the receive loop has parsed an echo reply, the body is
  an echo, its marshalled form has four bytes more than its data, and the two slice
  expressions \<^verbatim>\<open>body[4:]\<close> and \<^verbatim>\<open>body[:8]\<close> are in bounds exactly when the data has
  at least eight bytes (twelve marshalled bytes); nothing checks this, and with
  fewer bytes the program panics. Such a reply reaches \<open>pingOnce\<close>: with eight data
  bytes requested, an echo reply without data under a 24-byte IPv4 header makes it
  panic.
\<close>

theorem timestamp_slices_need_eight_data_bytes:
  assumes "clock a - start < timeout"
      and "conn_Read_deadline deadline data a = Inr data'"
      and "parse_reply sy isIPv6 data' ttl = (ttl', Inr m)"
      and "msgType m = ipv4_ICMPTypeEchoReply \<or> msgType m = ipv6_ICMPTypeEchoReply"
  shows "(\<exists>i s d. msgBody m = Echo i s d \<and>
            length (body_Marshal (msgBody m)) = 4 + length d \<and>
            recv_loop sy isIPv6 start deadline data ttl (a # rest) =
              (if 8 \<le> length d
               then Returns (ttl', real_of_int (sint (arrival_nano a - Uint64 (take 8 d))) / 1000000,
                             None)
               else Panic SliceBoundsOutOfRange)) \<and>
         pingOnce demo_sys short_reply_probe 1 ''127.0.0.1'' False 8 = Panic SliceBoundsOutOfRange"
proof -
  from parse_reply_echo_reply [OF assms(3,4)] obtain i s d where b: "msgBody m = Echo i s d"
    by blast
  have "recv_loop sy isIPv6 start deadline data ttl (a # rest) =
          (if 8 \<le> length d
           then Returns (ttl', real_of_int (sint (arrival_nano a - Uint64 (take 8 d))) / 1000000, None)
           else Panic SliceBoundsOutOfRange)"
    using assms b by (simp add: sendTimestamp_body del: body_Marshal.simps)
  with b show ?thesis
    using short_reply_panics by auto
qed

theorem timestamp_slices_need_eight_data_bytes_witness:
  "recv_loop demo_sys False 0 1000000000 (demo_header @ demo_request) 64 (tl (arrivals demo_probe)) =
     Returns (64, 5 / 2, None)"
proof -
  let ?a = "\<lparr>clock = 2000, read_at = 2500000, packet = Some (demo_header @ demo_reply),
             arrival_nano = 0x0102030405060708 + 2500000\<rparr>"
  let ?m = "\<lparr>msgType = ipv4_ICMPTypeEchoReply, msgCode = 0, msgChecksum = 65535,
             msgBody = Echo 0x1234 1 [8, 7, 6, 5, 4, 3, 2, 1]\<rparr>"
  have c: "clock ?a - 0 < timeout"
    by (simp add: timeout_def)
  have r: "conn_Read_deadline 1000000000 (demo_header @ demo_request) ?a =
             Inr (demo_header @ demo_reply)"
    by (simp add: evals)
  have p: "parse_reply demo_sys False (demo_header @ demo_reply) 64 = (64, Inr ?m)"
    by (simp add: evals)
  have t: "msgType ?m = ipv4_ICMPTypeEchoReply \<or> msgType ?m = ipv6_ICMPTypeEchoReply"
    by simp
  from timestamp_slices_need_eight_data_bytes [OF c r p t, of "[]"] show ?thesis
    by (simp add: demo_probe_def Uint64_def)
qed

lemma recv_loop_returns:
  assumes "if isIPv6 then 16 \<le> length data else 76 \<le> length data"
  shows "\<exists>r. recv_loop sy isIPv6 start deadline data ttl arrs = Returns r"
  using assms
proof (induction arrs arbitrary: data ttl)
  case Nil
  then show ?case by simp
next
  case (Cons a arrs)
  show ?case
  proof (cases "clock a - start < timeout")
    case False
    then show ?thesis by simp
  next
    case True
    show ?thesis
    proof (cases "conn_Read_deadline deadline data a")
      case (Inl e)
      with True show ?thesis by simp
    next
      case (Inr data')
      then have len: "length data' = length data"
        by (rule length_conn_Read_deadline)
      obtain ttl' r where pr: "parse_reply sy isIPv6 data' ttl = (ttl', r)"
        by (cases "parse_reply sy isIPv6 data' ttl")
      show ?thesis
      proof (cases r)
        case (Inl e)
        with True Inr pr show ?thesis by simp
      next
        case m: (Inr m)
        show ?thesis
        proof (cases "msgType m = ipv4_ICMPTypeEchoReply \<or> msgType m = ipv6_ICMPTypeEchoReply")
          case False
          have "if isIPv6 then 16 \<le> length data' else 76 \<le> length data'"
            using Cons.prems len by simp
          from Cons.IH [OF this, of ttl'] True Inr pr m False show ?thesis
            by simp
        next
          case reply: True
          from parse_reply_echo_reply [OF pr [unfolded m] reply]
          obtain i s d where b: "msgBody m = Echo i s d"
            and d: "if isIPv6 then length d = length data' - 8 else length data' - 68 \<le> length d"
            by blast
          from d Cons.prems len have "8 \<le> length d"
            by (auto split: if_splits)
          with True Inr pr m reply b
          have "recv_loop sy isIPv6 start deadline data ttl (a # arrs) =
                  Returns (ttl', real_of_int (sint (arrival_nano a - Uint64 (take 8 d))) / 1000000, None)"
            by (simp add: sendTimestamp_body del: body_Marshal.simps)
          then show ?thesis by blast
        qed
      qed
    qed
  qed
qed

text \<open>With at least 48 data bytes, the 56 of \<open>main\<close> among them, no probe panics.\<close>

lemma pingOnce_returns:
  assumes "48 \<le> dataSize"
  shows "\<exists>printed ttl rtt err. pingOnce sy w seq ip isIPv6 dataSize = Returns (printed, ttl, rtt, err)"
proof (cases "dial_fails w")
  case True
  then show ?thesis by (simp add: pingOnce_def)
next
  case False
  obtain req where e: "echo sy (send_nano w) seq isIPv6 dataSize = Returns ([], req, None)"
    and l: "length req = 8 + nat dataSize"
    using assms by (cases isIPv6) (simp_all add: echo_def Message_Marshal_def Let_def PutUint64_def)
  let ?data = "replicate (if isIPv6 then length req else length req + 20) (0 :: byte)"
  have "if isIPv6 then 16 \<le> length ?data else 76 \<le> length ?data"
    using l assms by (simp; linarith)
  from recv_loop_returns [OF this]
  obtain r where "recv_loop sy isIPv6 (startTime w) (startTime w + timeout) ?data 0 (arrivals w) = Returns r"
    by blast
  with False e show ?thesis
    by (cases r) (auto simp: pingOnce_def Let_def)
qed

section \<open>The probe loops\<close>

lemma pingOnce_printed:
  assumes "pingOnce sy w seq ip isIPv6 dataSize = Returns (printed, r)"
  shows "printed = [] \<or> printed = [FailedToDial]"
  using assms
  by (auto simp: pingOnce_def Let_def split: if_splits outcome.splits prod.splits dest: echo_layout(5))

lemma loop_body_Returns:
  assumes "pingOnce sy (probe W (nat i)) i ip isIPv6 dataSize = Returns (printed, ttl, rtt, err)"
  shows "loop_body sy W ip isIPv6 dataSize i (s, out) =
           Returns (case err of
                      Some e \<Rightarrow> (s\<lparr>trans_s := trans_s s + 1\<rparr>, out @ printed @ [RequestTimeout i])
                    | None \<Rightarrow>
                        (s\<lparr>recv := recv s + 1, rtts := rtts s @ [rtt], trans_s := trans_s s + 1\<rparr>,
                         out @ printed @ [PacketFrom ip i (if isIPv6 then ''hlim'' else ''ttl'') ttl rtt]))"
  using assms by (simp add: loop_body_def Let_def split: option.split)

lemma loop_body_Panic:
  "loop_body sy W ip isIPv6 dataSize i st = Panic p \<longleftrightarrow>
   pingOnce sy (probe W (nat i)) i ip isIPv6 dataSize = Panic p"
  by (auto simp: loop_body_def Let_def split: outcome.splits prod.splits)

lemma probe_seqs_append: "probe_seqs (xs @ ys) = probe_seqs xs @ probe_seqs ys"
  by (induction xs rule: probe_seqs.induct) simp_all

lemma statistics_of_append: "statistics_of (xs @ ys) = statistics_of xs @ statistics_of ys"
  by (induction xs rule: statistics_of.induct) simp_all

lemma loop_body_step:
  assumes "loop_body sy W ip isIPv6 dataSize i (s, out) = Returns (s', out')"
  shows "trans_s s' = trans_s s + 1"
    and "probe_seqs out' = probe_seqs out @ [i]"
    and "statistics_of out' = statistics_of out"
    and "(recv s' = recv s \<and> rtts s' = rtts s) \<or> (recv s' = recv s + 1 \<and> (\<exists>rtt. rtts s' = rtts s @ [rtt]))"
    and "stats_inv s \<Longrightarrow> stats_inv s'"
proof -
  from assms obtain printed ttl rtt err
    where p: "pingOnce sy (probe W (nat i)) i ip isIPv6 dataSize = Returns (printed, ttl, rtt, err)"
    by (auto simp: loop_body_def split: outcome.splits)
  from pingOnce_printed [OF p] have pr: "probe_seqs printed = []" "statistics_of printed = []"
    by auto
  from assms loop_body_Returns [OF p, of s out]
  have r: "(s', out') = (case err of
                      Some e \<Rightarrow> (s\<lparr>trans_s := trans_s s + 1\<rparr>, out @ printed @ [RequestTimeout i])
                    | None \<Rightarrow>
                        (s\<lparr>recv := recv s + 1, rtts := rtts s @ [rtt], trans_s := trans_s s + 1\<rparr>,
                         out @ printed @ [PacketFrom ip i (if isIPv6 then ''hlim'' else ''ttl'') ttl rtt]))"
    by simp
  show "trans_s s' = trans_s s + 1"
    using r by (cases err) auto
  show "probe_seqs out' = probe_seqs out @ [i]"
    using r pr by (cases err) (auto simp: probe_seqs_append)
  show "statistics_of out' = statistics_of out"
    using r pr by (cases err) (auto simp: statistics_of_append)
  show "(recv s' = recv s \<and> rtts s' = rtts s) \<or> (recv s' = recv s + 1 \<and> (\<exists>rtt. rtts s' = rtts s @ [rtt]))"
    using r by (cases err) auto
  show "stats_inv s'" if "stats_inv s"
    using r that by (cases err) (auto simp: stats_inv_def)
qed

lemma iterations_facts:
  assumes "iterations sy W ip isIPv6 dataSize i k (s, out) = Returns (s', out')"
  shows "trans_s s' = trans_s s + int k \<and>
         probe_seqs out' = probe_seqs out @ map (\<lambda>j. i + int j) [0..<k] \<and>
         statistics_of out' = statistics_of out \<and>
         (stats_inv s \<longrightarrow> stats_inv s')"
  using assms
proof (induction k arbitrary: i s out)
  case 0
  then show ?case by simp
next
  case (Suc k)
  from Suc.prems obtain s1 out1
    where b: "loop_body sy W ip isIPv6 dataSize i (s, out) = Returns (s1, out1)"
      and r: "iterations sy W ip isIPv6 dataSize (i + 1) k (s1, out1) = Returns (s', out')"
    by (auto split: outcome.splits)
  have m: "map (\<lambda>j. i + int j) [0..<Suc k] = i # map (\<lambda>j. i + 1 + int j) [0..<k]"
    by (simp add: upt_conv_Cons map_Suc_upt [symmetric] del: upt_Suc)
  from Suc.IH [OF r] loop_body_step [OF b] show ?case
    unfolding m by simp
qed

lemma pingForTimes_from_iterations:
  assumes "pingForTimes_from sy W ip isIPv6 dataSize count i st = Returns st'"
  shows "\<exists>k. iterations sy W ip isIPv6 dataSize i k st = Returns st' \<and> (0 < k \<longrightarrow> i + int k \<le> count)"
  using assms
proof (induction sy W ip isIPv6 dataSize count i st rule: pingForTimes_from.induct)
  case (1 sy W ip isIPv6 dataSize count i st)
  show ?case
  proof (cases "i < count")
    case False
    with "1.prems" have "iterations sy W ip isIPv6 dataSize i 0 st = Returns st'"
      by simp
    then show ?thesis by (intro exI [of _ 0]) simp
  next
    case True
    with "1.prems" obtain st1 where b: "loop_body sy W ip isIPv6 dataSize i st = Returns st1"
      by (auto split: outcome.splits)
    show ?thesis
    proof (cases "cancelled W (nat i)")
      case c: True
      with True b "1.prems" have "st' = st1" by simp
      with b have "iterations sy W ip isIPv6 dataSize i (Suc 0) st = Returns st'"
        by simp
      with True show ?thesis by (intro exI [of _ "Suc 0"]) simp
    next
      case c: False
      with True b "1.prems"
      have "pingForTimes_from sy W ip isIPv6 dataSize count (i + 1) st1 = Returns st'"
        by simp
      from "1.IH" [OF True b c this] obtain k
        where k: "iterations sy W ip isIPv6 dataSize (i + 1) k st1 = Returns st'"
          and le: "0 < k \<longrightarrow> i + 1 + int k \<le> count"
        by blast
      from k b have "iterations sy W ip isIPv6 dataSize i (Suc k) st = Returns st'"
        by simp
      moreover have "i + int (Suc k) \<le> count"
        using le True by (cases k) auto
      ultimately show ?thesis by (intro exI [of _ "Suc k"]) simp
    qed
  qed
qed

lemma pingForTimes_from_iterations_pos:
  assumes "pingForTimes_from sy W ip isIPv6 dataSize count i st = Returns st'" and "i < count"
  shows "\<exists>k. 0 < k \<and> iterations sy W ip isIPv6 dataSize i k st = Returns st'"
proof -
  from assms obtain st1 where b: "loop_body sy W ip isIPv6 dataSize i st = Returns st1"
    by (subst (asm) pingForTimes_from.simps) (auto split: outcome.splits)
  show ?thesis
  proof (cases "cancelled W (nat i)")
    case True
    with assms b have "iterations sy W ip isIPv6 dataSize i (Suc 0) st = Returns st'"
      by (subst (asm) pingForTimes_from.simps) simp
    then show ?thesis by (intro exI [of _ "Suc 0"]) simp
  next
    case False
    with assms b have "pingForTimes_from sy W ip isIPv6 dataSize count (i + 1) st1 = Returns st'"
      by (subst (asm) pingForTimes_from.simps) simp
    from pingForTimes_from_iterations [OF this] obtain k
      where "iterations sy W ip isIPv6 dataSize (i + 1) k st1 = Returns st'"
      by blast
    with b have "iterations sy W ip isIPv6 dataSize i (Suc k) st = Returns st'"
      by simp
    then show ?thesis by (intro exI [of _ "Suc k"]) simp
  qed
qed

lemma pingForever_from_iterations:
  assumes "pingForever_from sy W ip isIPv6 dataSize i st = Some (Returns st')"
  shows "\<exists>k. 0 < k \<and> iterations sy W ip isIPv6 dataSize i k st = Returns st'"
proof -
  have "\<forall>st'. y = Returns st' \<longrightarrow>
          (\<exists>k. 0 < k \<and> iterations sy W ip isIPv6 dataSize i k st = Returns st')"
    if "pingForever_from sy W ip isIPv6 dataSize i st = Some y" for y
  proof (rule pingForever_from.raw_induct
      [where P = "\<lambda>sy W ip isIPv6 dataSize i st y. \<forall>st'. y = Returns st' \<longrightarrow>
          (\<exists>k. 0 < k \<and> iterations sy W ip isIPv6 dataSize i k st = Returns st')", OF _ that],
      goal_cases)
    case (1 f sy W ip isIPv6 dataSize i st y)
    show ?case
    proof (intro allI impI)
      fix st'
      assume y: "y = Returns st'"
      with "1"(2) obtain st1 where b: "loop_body sy W ip isIPv6 dataSize i st = Returns st1"
        by (auto split: outcome.splits)
      show "\<exists>k. 0 < k \<and> iterations sy W ip isIPv6 dataSize i k st = Returns st'"
      proof (cases "cancelled W (nat i)")
        case True
        with b y "1"(2) have "iterations sy W ip isIPv6 dataSize i (Suc 0) st = Returns st'"
          by simp
        then show ?thesis by (intro exI [of _ "Suc 0"]) simp
      next
        case False
        with b y "1"(2) have "f sy W ip isIPv6 dataSize (i + 1) st1 = Some (Returns st')"
          by simp
        from "1"(1) [OF this] obtain k
          where "iterations sy W ip isIPv6 dataSize (i + 1) k st1 = Returns st'"
          by blast
        with b have "iterations sy W ip isIPv6 dataSize i (Suc k) st = Returns st'"
          by simp
        then show ?thesis by (intro exI [of _ "Suc k"]) simp
      qed
    qed
  qed
  with assms show ?thesis by blast
qed

lemma pingForTimes_from_exhaust:
  assumes "i + int n = count" and "\<forall>j<n. \<not> cancelled W (nat (i + int j))"
  shows "pingForTimes_from sy W ip isIPv6 dataSize count i st = iterations sy W ip isIPv6 dataSize i n st"
  using assms
proof (induction n arbitrary: i st)
  case 0
  then show ?case by simp
next
  case (Suc n)
  have nc: "\<not> cancelled W (nat i)"
    using Suc.prems(2) [rule_format, of 0] by simp
  have "\<forall>j<n. \<not> cancelled W (nat (i + 1 + int j))"
  proof (intro allI impI)
    fix j assume "j < n"
    then have "\<not> cancelled W (nat (i + int (Suc j)))"
      using Suc.prems(2) by auto
    then show "\<not> cancelled W (nat (i + 1 + int j))"
      by (simp add: add.commute add.left_commute)
  qed
  moreover have "i + 1 + int n = count"
    using Suc.prems(1) by simp
  ultimately have IH: "pingForTimes_from sy W ip isIPv6 dataSize count (i + 1) st' =
      iterations sy W ip isIPv6 dataSize (i + 1) n st'" for st'
    using Suc.IH by blast
  have "i < count" using Suc.prems(1) by simp
  then show ?case
    using nc IH by (simp split: outcome.split)
qed

lemma pingForTimes_from_cancel:
  assumes "i + int n < count" and "cancelled W (nat (i + int n))"
      and "\<forall>j<n. \<not> cancelled W (nat (i + int j))"
  shows "pingForTimes_from sy W ip isIPv6 dataSize count i st =
           iterations sy W ip isIPv6 dataSize i (Suc n) st"
  using assms
proof (induction n arbitrary: i st)
  case 0
  then show ?case by (simp split: outcome.split)
next
  case (Suc n)
  have nc: "\<not> cancelled W (nat i)"
    using Suc.prems(3) [rule_format, of 0] by simp
  have "\<forall>j<n. \<not> cancelled W (nat (i + 1 + int j))"
  proof (intro allI impI)
    fix j assume "j < n"
    then have "\<not> cancelled W (nat (i + int (Suc j)))"
      using Suc.prems(3) by auto
    then show "\<not> cancelled W (nat (i + 1 + int j))"
      by (simp add: add.commute add.left_commute)
  qed
  moreover have "i + 1 + int n < count" "cancelled W (nat (i + 1 + int n))"
    using Suc.prems(1,2) by (simp_all add: add.commute add.left_commute)
  ultimately have IH: "pingForTimes_from sy W ip isIPv6 dataSize count (i + 1) st' =
      iterations sy W ip isIPv6 dataSize (i + 1) (Suc n) st'" for st'
    using Suc.IH by blast
  have "i < count" using Suc.prems(1) by simp
  then show ?case
    using nc IH by (subst pingForTimes_from.simps) (simp split: outcome.split)
qed

lemma pingForever_from_cancel:
  assumes "cancelled W (nat (i + int n))"
      and "\<forall>j<n. \<not> cancelled W (nat (i + int j))"
  shows "pingForever_from sy W ip isIPv6 dataSize i st =
           Some (iterations sy W ip isIPv6 dataSize i (Suc n) st)"
  using assms
proof (induction n arbitrary: i st)
  case 0
  then show ?case
    by (subst pingForever_from.simps) (simp split: outcome.split)
next
  case (Suc n)
  have nc: "\<not> cancelled W (nat i)"
    using Suc.prems(2) [rule_format, of 0] by simp
  have "\<forall>j<n. \<not> cancelled W (nat (i + 1 + int j))"
  proof (intro allI impI)
    fix j assume "j < n"
    then have "\<not> cancelled W (nat (i + int (Suc j)))"
      using Suc.prems(2) by auto
    then show "\<not> cancelled W (nat (i + 1 + int j))"
      by (simp add: add.commute add.left_commute)
  qed
  moreover have "cancelled W (nat (i + 1 + int n))"
    using Suc.prems(1) by (simp add: add.commute add.left_commute)
  ultimately have IH: "pingForever_from sy W ip isIPv6 dataSize (i + 1) st' =
      Some (iterations sy W ip isIPv6 dataSize (i + 1) (Suc n) st')" for st'
    using Suc.IH by blast
  show ?case
    using nc IH by (subst pingForever_from.simps) (simp split: outcome.split)
qed

lemma iterations_returns:
  assumes "48 \<le> dataSize"
  shows "\<exists>st'. iterations sy W ip isIPv6 dataSize i k st = Returns st'"
proof (induction k arbitrary: i st)
  case 0
  then show ?case by simp
next
  case (Suc k)
  obtain printed ttl rtt err
    where "pingOnce sy (probe W (nat i)) i ip isIPv6 dataSize = Returns (printed, ttl, rtt, err)"
    using pingOnce_returns [OF assms] by blast
  from loop_body_Returns [OF this, of "fst st" "snd st"]
  obtain st1 where "loop_body sy W ip isIPv6 dataSize i st = Returns st1"
    by auto
  with Suc.IH [of "i + 1" st1] show ?case by simp
qed

lemma upto_map: "0 \<le> i \<Longrightarrow> map (\<lambda>j. i + int j) [0..<k] = [i..i + int k - 1]"
proof (induction k arbitrary: i)
  case 0
  then show ?case by simp
next
  case (Suc k)
  have m: "map (\<lambda>j. i + int j) [0..<Suc k] = i # map (\<lambda>j. i + 1 + int j) [0..<k]"
    by (simp add: upt_conv_Cons map_Suc_upt [symmetric] del: upt_Suc)
  have "[i..i + int (Suc k) - 1] = i # [i + 1..i + 1 + int k - 1]"
    by (subst upto_rec1) simp_all
  with Suc.IH [of "i + 1"] Suc.prems m show ?case by simp
qed

lemma demo_resolve:
  "resolve demo_world ''127.0.0.1'' = Returns (Some \<lparr>ip_String = ''127.0.0.1'', is_v4 = True\<rparr>, False)"
  by (simp add: resolve_def demo_world_def)

lemma demo_answered:
  "pingOnce demo_sys demo_probe 0 ''127.0.0.1'' False 56 = Returns ([], 64, 5 / 2, None)"
  by (simp add: evals demo_probe_def)

lemma demo_no_route:
  "pingOnce demo_sys no_route_probe i ''127.0.0.1'' False 56 = Returns ([FailedToDial], 0, 0, Some DialError)"
  by (simp add: pingOnce_def no_route_probe_def)

lemma demo_iterations:
  "iterations demo_sys demo_world ''127.0.0.1'' False 56 0 2 (\<lparr>trans_s = 0, recv = 0, rtts = []\<rparr>, []) =
     Returns (\<lparr>trans_s = 2, recv = 1, rtts = [5 / 2]\<rparr>,
              [PacketFrom ''127.0.0.1'' 0 ''ttl'' 64 (5 / 2), FailedToDial, RequestTimeout 1])"
proof -
  have p0: "probe demo_world (nat 0) = demo_probe" and p1: "probe demo_world (nat 1) = no_route_probe"
    by (simp_all add: demo_world_def)
  have b0: "loop_body demo_sys demo_world ''127.0.0.1'' False 56 0 (\<lparr>trans_s = 0, recv = 0, rtts = []\<rparr>, []) =
      Returns (\<lparr>trans_s = 1, recv = 1, rtts = [5 / 2]\<rparr>, [PacketFrom ''127.0.0.1'' 0 ''ttl'' 64 (5 / 2)])"
    using loop_body_Returns [of demo_sys demo_world 0 "''127.0.0.1''" False 56, unfolded p0, OF demo_answered]
    by simp
  have b1: "loop_body demo_sys demo_world ''127.0.0.1'' False 56 1
       (\<lparr>trans_s = 1, recv = 1, rtts = [5 / 2]\<rparr>, [PacketFrom ''127.0.0.1'' 0 ''ttl'' 64 (5 / 2)]) =
      Returns (\<lparr>trans_s = 2, recv = 1, rtts = [5 / 2]\<rparr>,
              [PacketFrom ''127.0.0.1'' 0 ''ttl'' 64 (5 / 2), FailedToDial, RequestTimeout 1])"
    using loop_body_Returns [of demo_sys demo_world 1 "''127.0.0.1''" False 56, unfolded p1, OF demo_no_route]
    by simp
  have "iterations demo_sys demo_world ''127.0.0.1'' False 56 0 (Suc (Suc 0)) (\<lparr>trans_s = 0, recv = 0, rtts = []\<rparr>, []) =
     Returns (\<lparr>trans_s = 2, recv = 1, rtts = [5 / 2]\<rparr>,
              [PacketFrom ''127.0.0.1'' 0 ''ttl'' 64 (5 / 2), FailedToDial, RequestTimeout 1])"
    by (simp add: b0 b1)
  then show ?thesis
    by (simp only: numeral_2_eq_2)
qed

text \<open>
  Claim C4. For every count \<open>n\<close> of at least one, the bounded loop that sees no
  value on the channel returns, has added exactly \<open>n\<close> to the transmitted counter,
  and has run one iteration for each of the sequence numbers \<open>0\<close> to \<open>n - 1\<close>, in
  order. The data size is at least 48, as the 56 that \<open>main\<close> passes is.
\<close>

theorem bounded_loop_transmits_count:
  assumes "1 \<le> n" and "\<forall>j. j < nat n \<longrightarrow> \<not> cancelled W j" and "48 \<le> dataSize"
  shows "\<exists>s' out'. pingForTimes sy W ip isIPv6 dataSize n (s, out) = Returns (s', out') \<and>
           trans_s s' = trans_s s + n \<and>
           probe_seqs out' = probe_seqs out @ [0..n - 1]"
proof -
  have n: "0 + int (nat n) = n" using assms(1) by simp
  have nc: "\<forall>j<nat n. \<not> cancelled W (nat (0 + int j))"
    using assms(2) by simp
  have eq: "pingForTimes sy W ip isIPv6 dataSize n (s, out) =
              iterations sy W ip isIPv6 dataSize 0 (nat n) (s, out)"
    unfolding pingForTimes_def by (rule pingForTimes_from_exhaust [OF n nc])
  obtain s' out' where r: "iterations sy W ip isIPv6 dataSize 0 (nat n) (s, out) = Returns (s', out')"
    using iterations_returns [OF assms(3), of sy W ip isIPv6 0 "nat n" "(s, out)"] by force
  from iterations_facts [OF r] upto_map [of 0 "nat n"] assms(1)
  have "trans_s s' = trans_s s + n \<and> probe_seqs out' = probe_seqs out @ [0..n - 1]"
    by simp
  with eq r show ?thesis by simp
qed

theorem bounded_loop_transmits_count_witness:
  "\<exists>s' out'. pingForTimes demo_sys demo_world ''127.0.0.1'' False 56 2
                 (\<lparr>trans_s = 0, recv = 0, rtts = []\<rparr>, []) = Returns (s', out') \<and>
     trans_s s' = 2 \<and> probe_seqs out' = [0, 1]"
proof -
  have u: "[0..(1::int)] = [0, 1]"
    by (simp add: upto_rec1)
  from bounded_loop_transmits_count [of 2 demo_world 56 demo_sys "''127.0.0.1''" False
      "\<lparr>trans_s = 0, recv = 0, rtts = []\<rparr>" "[]"]
  show ?thesis
    by (simp add: demo_world_def u)
qed

text \<open>
  Claim C5. From a state that satisfies the invariant (the initial one does), the
  state after any number of iterations has \<open>recv \<le> trans\<close> and as many samples as
  \<open>recv\<close>, and \<open>trans\<close> has grown by the number of iterations. One iteration adds
  exactly one to \<open>trans\<close>; it leaves \<open>recv\<close> and the samples alone when \<open>pingOnce\<close>
  returns an error, and adds one to \<open>recv\<close> and the round-trip time to the samples
  when it returns none. What either loop returns is the state after some number of
  iterations.
\<close>

theorem stats_invariant_after_every_iteration:
  assumes "stats_inv s"
  shows "(\<forall>i k s' out'. iterations sy W ip isIPv6 dataSize i k (s, out) = Returns (s', out') \<longrightarrow>
            recv s' \<le> trans_s s' \<and> int (length (rtts s')) = recv s' \<and>
            trans_s s' = trans_s s + int k) \<and>
         (\<forall>i s' out'. loop_body sy W ip isIPv6 dataSize i (s, out) = Returns (s', out') \<longrightarrow>
            trans_s s' = trans_s s + 1 \<and>
            (\<forall>printed ttl rtt e.
               pingOnce sy (probe W (nat i)) i ip isIPv6 dataSize = Returns (printed, ttl, rtt, Some e) \<longrightarrow>
               recv s' = recv s \<and> rtts s' = rtts s) \<and>
            (\<forall>printed ttl rtt.
               pingOnce sy (probe W (nat i)) i ip isIPv6 dataSize = Returns (printed, ttl, rtt, None) \<longrightarrow>
               recv s' = recv s + 1 \<and> rtts s' = rtts s @ [rtt])) \<and>
         (\<forall>count st'. pingForTimes sy W ip isIPv6 dataSize count (s, out) = Returns st' \<longrightarrow>
            (\<exists>k. iterations sy W ip isIPv6 dataSize 0 k (s, out) = Returns st')) \<and>
         (\<forall>st'. pingForever sy W ip isIPv6 dataSize (s, out) = Some (Returns st') \<longrightarrow>
            (\<exists>k. iterations sy W ip isIPv6 dataSize 0 k (s, out) = Returns st'))"
proof (intro conjI allI impI)
  fix i k s' out'
  assume "iterations sy W ip isIPv6 dataSize i k (s, out) = Returns (s', out')"
  from iterations_facts [OF this] assms
  have "stats_inv s'" and t: "trans_s s' = trans_s s + int k"
    by simp_all
  then show "recv s' \<le> trans_s s'" "int (length (rtts s')) = recv s'" "trans_s s' = trans_s s + int k"
    by (simp_all add: stats_inv_def)
next
  fix i s' out'
  assume b: "loop_body sy W ip isIPv6 dataSize i (s, out) = Returns (s', out')"
  from loop_body_step(1) [OF b] show "trans_s s' = trans_s s + 1" .
  {
    fix printed ttl rtt e
    assume "pingOnce sy (probe W (nat i)) i ip isIPv6 dataSize = Returns (printed, ttl, rtt, Some e)"
    from loop_body_Returns [OF this, of s out] b
    show "recv s' = recv s" "rtts s' = rtts s"
      by auto
  }
  {
    fix printed ttl rtt
    assume "pingOnce sy (probe W (nat i)) i ip isIPv6 dataSize = Returns (printed, ttl, rtt, None)"
    from loop_body_Returns [OF this, of s out] b
    show "recv s' = recv s + 1" "rtts s' = rtts s @ [rtt]"
      by auto
  }
next
  fix count st'
  assume "pingForTimes sy W ip isIPv6 dataSize count (s, out) = Returns st'"
  then have "pingForTimes_from sy W ip isIPv6 dataSize count 0 (s, out) = Returns st'"
    by (simp add: pingForTimes_def)
  from pingForTimes_from_iterations [OF this]
  show "\<exists>k. iterations sy W ip isIPv6 dataSize 0 k (s, out) = Returns st'"
    by blast
next
  fix st'
  assume "pingForever sy W ip isIPv6 dataSize (s, out) = Some (Returns st')"
  then have "pingForever_from sy W ip isIPv6 dataSize 0 (s, out) = Some (Returns st')"
    by (simp add: pingForever_def)
  from pingForever_from_iterations [OF this]
  show "\<exists>k. iterations sy W ip isIPv6 dataSize 0 k (s, out) = Returns st'"
    by blast
qed

theorem stats_invariant_after_every_iteration_witness:
  "iterations demo_sys demo_world ''127.0.0.1'' False 56 0 2 (\<lparr>trans_s = 0, recv = 0, rtts = []\<rparr>, []) =
     Returns (\<lparr>trans_s = 2, recv = 1, rtts = [5 / 2]\<rparr>,
              [PacketFrom ''127.0.0.1'' 0 ''ttl'' 64 (5 / 2), FailedToDial, RequestTimeout 1]) \<and>
   recv \<lparr>trans_s = 2, recv = 1, rtts = [5 / 2 :: real]\<rparr> \<le> trans_s \<lparr>trans_s = 2, recv = 1, rtts = [5 / 2 :: real]\<rparr> \<and>
   int (length (rtts \<lparr>trans_s = 2, recv = 1, rtts = [5 / 2 :: real]\<rparr>)) = recv \<lparr>trans_s = 2, recv = 1, rtts = [5 / 2 :: real]\<rparr>"
proof -
  have "stats_inv \<lparr>trans_s = 0, recv = 0, rtts = []\<rparr>"
    by (simp add: stats_inv_def)
  from stats_invariant_after_every_iteration [OF this, THEN conjunct1, rule_format, OF demo_iterations]
    demo_iterations
  show ?thesis by simp
qed

text \<open>
  An error that \<open>pingOnce\<close> returns stays in its iteration: the timeout notice is
  printed, \<open>trans\<close> is incremented, nothing else changes.
\<close>

lemma probe_error_is_local:
  assumes "pingOnce sy (probe W (nat i)) i ip isIPv6 dataSize = Returns (printed, ttl, rtt, Some e)"
  shows "loop_body sy W ip isIPv6 dataSize i (s, out) =
           Returns (s\<lparr>trans_s := trans_s s + 1\<rparr>, out @ printed @ [RequestTimeout i])"
  using loop_body_Returns [OF assms] by simp

text \<open>
  Claim C8. A probe that gets no reply within the second is not always handled as
  a failure. When the receive loop is left by its condition (here after the
  request itself was read and skipped), \<open>pingOnce\<close> returns no error and a
  round-trip time of zero, and the loop body counts a received packet with a
  sample \<open>0\<close> and prints no timeout notice.
\<close>

theorem loop_exit_without_reply_counts_as_received:
  "pingOnce demo_sys late_probe 0 ''127.0.0.1'' False 56 = Returns ([], 64, 0, None) \<and>
   loop_body demo_sys late_world ''127.0.0.1'' False 56 0 (\<lparr>trans_s = 0, recv = 0, rtts = []\<rparr>, []) =
     Returns (\<lparr>trans_s = 1, recv = 1, rtts = [0]\<rparr>, [PacketFrom ''127.0.0.1'' 0 ''ttl'' 64 0])"
  by (simp add: loop_body_def late_world_def late_probe_def evals)


section \<open>Statistics\<close>

subsection \<open>Rounding\<close>

lemma rne_of_int: "rne (of_int m) = m"
  by (simp add: rne_def)

lemma rne_error: "\<bar>of_int (rne y) - y\<bar> \<le> 1 / 2"
  unfolding rne_def Let_def by (auto; linarith)

lemma rne_nearest:
  assumes "of_int m - 1 / 2 < y" and "y < of_int m + 1 / 2"
  shows "rne y = m"
proof -
  have "\<lfloor>y\<rfloor> = m \<or> \<lfloor>y\<rfloor> = m - 1"
    using assms by linarith
  then show ?thesis
  proof
    assume f: "\<lfloor>y\<rfloor> = m"
    then have "y - of_int m < 1 / 2"
      using assms by linarith
    then show ?thesis
      unfolding rne_def Let_def f by simp
  next
    assume f: "\<lfloor>y\<rfloor> = m - 1"
    then have "1 / 2 < y - of_int (m - 1)"
      using assms by simp
    then show ?thesis
      unfolding rne_def Let_def f by simp
  qed
qed

text \<open>An integer below \<open>2 ^ 53\<close> in absolute value is a binary64 number.\<close>

lemma fl_of_int:
  assumes "\<bar>n\<bar> < 2 ^ 53"
  shows "fl (of_int n) = Fin (of_int n)"
proof (cases "n = 0")
  case True
  then show ?thesis by (simp add: fl_def)
next
  case False
  let ?x = "of_int n :: real"
  have x1: "1 \<le> \<bar>?x\<bar>"
    using False by (simp flip: of_int_abs)
  have x53: "\<bar>?x\<bar> < 2 ^ 53"
  proof -
    have "(of_int \<bar>n\<bar> :: real) < of_int (2 ^ 53)"
      using assms by (simp only: of_int_less_iff)
    then show ?thesis by simp
  qed
  define k where "k = \<lfloor>log 2 \<bar>?x\<bar>\<rfloor>"
  have k0: "0 \<le> k"
    unfolding k_def using x1 by simp
  have "log 2 \<bar>?x\<bar> < 53"
    using x1 x53 by (simp add: log_less_iff powr_realpow)
  then have k52: "k \<le> 52"
    unfolding k_def by linarith
  have e: "ulp_exponent ?x = k - 52"
    unfolding ulp_exponent_def k_def [symmetric] using k0 by simp
  define j where "j = nat (52 - k)"
  have kj: "real_of_int (k - 52) = - real j"
    unfolding j_def using k52 by simp
  have u: "2 powr of_int (ulp_exponent ?x) = (1 / 2 ^ j :: real)"
    unfolding e kj by (simp add: powr_minus powr_realpow inverse_eq_divide)
  have q: "?x / (1 / 2 ^ j) = of_int (n * 2 ^ j)"
    by simp
  have r: "of_int (rne (?x / (1 / 2 ^ j))) * (1 / 2 ^ j) = ?x"
    unfolding q rne_of_int by simp
  have "\<bar>?x\<bar> < 2 ^ 1024"
    using x53 by (rule less_trans) simp
  then show ?thesis
    using False unfolding fl_def Let_def u r by simp
qed

lemma fl_numeral: "(numeral k :: int) < 2 ^ 53 \<Longrightarrow> fl (numeral k) = Fin (numeral k)"
  using fl_of_int [of "numeral k"] by simp

lemma fl_neg_numeral: "(numeral k :: int) < 2 ^ 53 \<Longrightarrow> fl (- numeral k) = Fin (- numeral k)"
  using fl_of_int [of "- numeral k"] by simp

lemma fl_0: "fl 0 = Fin 0"
  by (simp add: fl_def)

lemma fl_1: "fl 1 = Fin 1"
  using fl_of_int [of 1] by simp

lemmas float_evals = fl_numeral fl_neg_numeral fl_0 fl_1 float64_of_int_def fsub_def

lemma log2_inverse_power: "log 2 (1 / 2 ^ n) = - real n"
  by (simp add: log_divide log_nat_power)

text \<open>In the range of the normal numbers rounding moves a value by at most half a unit in the last place.\<close>

lemma fl_error:
  assumes lo: "1 / 2 ^ 1022 \<le> \<bar>x\<bar>" and hi: "\<bar>x\<bar> < 2 ^ 1023"
  shows "\<exists>r. fl x = Fin r \<and> \<bar>r - x\<bar> \<le> \<bar>x\<bar> / 2 ^ 53"
proof -
  have x0: "x \<noteq> 0" "0 < \<bar>x\<bar>"
    using lo by (auto intro: less_le_trans [of 0 "1 / 2 ^ 1022"])
  define k where "k = \<lfloor>log 2 \<bar>x\<bar>\<rfloor>"
  have "log 2 (1 / 2 ^ 1022) \<le> log 2 \<bar>x\<bar>"
    using lo x0 by (subst log_le_cancel_iff) simp_all
  moreover have "log 2 (1 / 2 ^ 1022) = - 1022"
    using log2_inverse_power [of 1022] by simp
  ultimately have k1022: "- 1022 \<le> k"
    unfolding k_def by (simp add: le_floor_iff)
  have e: "ulp_exponent x = k - 52"
    unfolding ulp_exponent_def k_def [symmetric] using k1022 by simp
  define u where "u = (2::real) powr of_int (k - 52)"
  have u0: "0 < u"
    unfolding u_def by simp
  have "(2::real) powr of_int k \<le> 2 powr log 2 \<bar>x\<bar>"
    unfolding k_def by (intro powr_mono) simp_all
  then have kx: "(2::real) powr of_int k \<le> \<bar>x\<bar>"
    using x0 by simp
  have "u = 2 powr of_int k / 2 ^ 52"
    unfolding u_def by (simp add: powr_diff powr_realpow [symmetric])
  then have ux: "u \<le> \<bar>x\<bar> / 2 ^ 52"
    using kx by (simp add: divide_right_mono)
  define r where "r = of_int (rne (x / u)) * u"
  have "r - x = (of_int (rne (x / u)) - x / u) * u"
    unfolding r_def using u0 by (simp add: algebra_simps)
  then have "\<bar>r - x\<bar> = \<bar>of_int (rne (x / u)) - x / u\<bar> * u"
    using u0 by (simp add: abs_mult)
  also have "\<dots> \<le> 1 / 2 * u"
    using rne_error [of "x / u"] u0 by (intro mult_right_mono) simp_all
  also have "\<dots> \<le> \<bar>x\<bar> / 2 ^ 53"
    using ux by simp
  finally have err: "\<bar>r - x\<bar> \<le> \<bar>x\<bar> / 2 ^ 53" .
  have "\<bar>r\<bar> \<le> \<bar>x\<bar> + \<bar>r - x\<bar>"
    by simp
  also have "\<dots> \<le> \<bar>x\<bar> + \<bar>x\<bar> / 2 ^ 53"
    using err by simp
  also have "\<dots> \<le> 2 * \<bar>x\<bar>"
    by simp
  also have "\<dots> < 2 * 2 ^ 1023"
    using hi by simp
  finally have "\<bar>r\<bar> < 2 ^ 1024"
    by simp
  then have "fl x = Fin r"
    using x0 unfolding fl_def Let_def e u_def [symmetric] r_def [symmetric] by simp
  with err show ?thesis by blast
qed

text \<open>
  A value whose quotient by the spacing lies between \<open>2 ^ 52\<close> and \<open>2 ^ 53\<close> is rounded
  by rounding that quotient; an integer of at most 53 bits times a power of two is a
  binary64 number.
\<close>

lemma rne_bound:
  assumes "\<bar>y\<bar> < 2 ^ 53"
  shows "\<bar>rne y\<bar> \<le> 2 ^ 53"
proof -
  have "\<bar>real_of_int (rne y)\<bar> \<le> \<bar>y\<bar> + \<bar>of_int (rne y) - y\<bar>"
    by simp
  also have "\<dots> < 2 ^ 53 + 1"
    using assms rne_error [of y] by simp
  finally have "real_of_int \<bar>rne y\<bar> < of_int (2 ^ 53 + 1)"
    by simp
  then have "\<bar>rne y\<bar> < 2 ^ 53 + 1"
    by (simp only: of_int_less_iff)
  then show ?thesis by simp
qed

lemma fl_round:
  assumes lo: "2 ^ 52 \<le> \<bar>y\<bar>" and hi: "\<bar>y\<bar> < 2 ^ 53" and e: "- 1074 \<le> e" "e \<le> 970"
  shows "fl (y * 2 powr of_int e) = Fin (of_int (rne y) * 2 powr of_int e)"
proof -
  let ?x = "y * 2 powr of_int e"
  have y0: "0 < \<bar>y\<bar>" "y \<noteq> 0"
    using lo by (auto intro: less_le_trans [of 0 "2 ^ 52"])
  have ax: "\<bar>?x\<bar> = \<bar>y\<bar> * 2 powr of_int e"
    by (simp add: abs_mult)
  have lg: "log 2 \<bar>?x\<bar> = log 2 \<bar>y\<bar> + of_int e"
    unfolding ax using y0 by (simp add: log_mult)
  have "52 \<le> log 2 \<bar>y\<bar>"
    using lo y0 by (simp add: le_log_iff powr_realpow)
  moreover have "log 2 \<bar>y\<bar> < 53"
    using hi y0 by (simp add: log_less_iff powr_realpow)
  ultimately have "\<lfloor>log 2 \<bar>?x\<bar>\<rfloor> = 52 + e"
    unfolding lg by linarith
  then have ue: "ulp_exponent ?x = e"
    unfolding ulp_exponent_def using e by simp
  have q: "?x / 2 powr of_int e = y"
    by simp
  have "\<bar>real_of_int (rne y)\<bar> \<le> 2 ^ 53"
  proof -
    have "real_of_int \<bar>rne y\<bar> \<le> of_int (2 ^ 53)"
      using rne_bound [OF hi] by (simp only: of_int_le_iff)
    then show ?thesis by simp
  qed
  moreover have "(2::real) powr of_int e \<le> 2 powr 970"
    using e by (intro powr_mono) simp_all
  ultimately have "\<bar>real_of_int (rne y)\<bar> * 2 powr of_int e \<le> 2 ^ 53 * 2 powr 970"
    by (intro mult_mono) simp_all
  also have "\<dots> = 2 powr 1023"
    by (simp add: powr_realpow [symmetric] powr_add [symmetric])
  also have "\<dots> < 2 powr 1024"
    by (intro powr_less_mono) simp_all
  finally have "\<bar>real_of_int (rne y) * 2 powr real_of_int e\<bar> < 2 ^ 1024"
    by (simp add: abs_mult powr_realpow [symmetric])
  then show ?thesis
    using y0 unfolding fl_def Let_def ue q by simp
qed

lemma fl_exact:
  assumes m: "\<bar>m\<bar> < 2 ^ 53" and e: "- 1074 \<le> e" "e \<le> 970"
  shows "fl (of_int m * 2 powr of_int e) = Fin (of_int m * 2 powr of_int e)"
proof (cases "m = 0")
  case True
  then show ?thesis by (simp add: fl_def)
next
  case False
  let ?x = "real_of_int m * 2 powr real_of_int e"
  have m1: "1 \<le> \<bar>real_of_int m\<bar>"
    using False by (simp flip: of_int_abs)
  have m53: "\<bar>real_of_int m\<bar> < 2 ^ 53"
  proof -
    have "real_of_int \<bar>m\<bar> < of_int (2 ^ 53)"
      using m by (simp only: of_int_less_iff)
    then show ?thesis by simp
  qed
  have x0: "?x \<noteq> 0"
    using False by simp
  have ax: "\<bar>?x\<bar> = \<bar>real_of_int m\<bar> * 2 powr of_int e"
    by (simp add: abs_mult)
  have lg: "log 2 \<bar>?x\<bar> = log 2 \<bar>real_of_int m\<bar> + of_int e"
    unfolding ax using False by (simp add: log_mult)
  have "0 \<le> log 2 \<bar>real_of_int m\<bar>"
    using m1 by simp
  moreover have "log 2 \<bar>real_of_int m\<bar> < 53"
    using m1 m53 by (simp add: log_less_iff powr_realpow)
  ultimately have k: "e \<le> \<lfloor>log 2 \<bar>?x\<bar>\<rfloor>" "\<lfloor>log 2 \<bar>?x\<bar>\<rfloor> \<le> 52 + e"
    unfolding lg by linarith+
  define ue where "ue = ulp_exponent ?x"
  have ue: "ue \<le> e"
    unfolding ue_def ulp_exponent_def using k e by simp
  define j where "j = nat (e - ue)"
  have ej: "real_of_int e = real_of_int ue + real j"
    unfolding j_def using ue by simp
  have p: "(2::real) powr of_int e = 2 powr of_int ue * 2 ^ j"
    unfolding ej by (simp add: powr_add powr_realpow)
  have q: "?x / 2 powr of_int ue = of_int (m * 2 ^ j)"
    unfolding p by simp
  have r: "of_int (rne (?x / 2 powr of_int ue)) * 2 powr of_int ue = ?x"
    unfolding q rne_of_int by (simp add: p)
  have "(2::real) powr of_int e \<le> 2 powr 970"
    using e by (intro powr_mono) simp_all
  with m53 have "\<bar>real_of_int m\<bar> * 2 powr of_int e < 2 ^ 53 * 2 powr 970"
    by (intro mult_less_le_imp_less) simp_all
  also have "\<dots> = 2 powr 1023"
    by (simp add: powr_realpow [symmetric] powr_add [symmetric])
  also have "\<dots> < 2 powr 1024"
    by (intro powr_less_mono) simp_all
  finally have "\<bar>?x\<bar> < 2 ^ 1024"
    unfolding ax by (simp add: powr_realpow [symmetric])
  then show ?thesis
    using x0 unfolding fl_def Let_def ue_def [symmetric] r by simp
qed

subsection \<open>The two loops\<close>

lemma stats_scan_fold:
  assumes "recv s = int (length (rtts s))" and "k \<le> length (rtts s)"
  shows "stats_scan s (int k) rMin rMax rAvg =
           Returns (fold min (drop k (rtts s)) rMin, fold max (drop k (rtts s)) rMax,
                    foldl fadd rAvg (map Fin (drop k (rtts s))))"
  using assms(2)
proof (induction "length (rtts s) - k" arbitrary: k rMin rMax rAvg)
  case 0
  then show ?case using assms(1) by simp
next
  case (Suc d)
  then have k: "k < length (rtts s)" by simp
  then have dr: "drop k (rtts s) = rtts s ! k # drop (Suc k) (rtts s)"
    by (simp add: Cons_nth_drop_Suc)
  have "d = length (rtts s) - Suc k" using Suc.hyps(2) by simp
  from Suc.hyps(1) [OF this] k
  have IH: "stats_scan s (int k + 1) a b c =
           Returns (fold min (drop (Suc k) (rtts s)) a, fold max (drop (Suc k) (rtts s)) b,
                    foldl fadd c (map Fin (drop (Suc k) (rtts s))))" for a b c
    by (simp add: add.commute)
  have mm: "(if x < a then x else a) = min x a" "(if x > b then x else b) = max x b" for x a b :: real
    by (simp_all add: min_def max_def)
  show ?case
    using k assms(1)
    by (subst stats_scan.simps) (simp add: dr Let_def mm IH del: stats_scan.simps)
qed

lemma stats_dev_fold:
  assumes "recv s = int (length (rtts s))" and "k \<le> length (rtts s)"
  shows "stats_dev s rAvg (int k) acc =
           Returns (foldl fadd acc
                      (map (\<lambda>x. fmul (fsub (Fin x) rAvg) (fsub (Fin x) rAvg)) (drop k (rtts s))))"
  using assms(2)
proof (induction "length (rtts s) - k" arbitrary: k acc)
  case 0
  then show ?case using assms(1) by simp
next
  case (Suc d)
  then have k: "k < length (rtts s)" by simp
  then have dr: "drop k (rtts s) = rtts s ! k # drop (Suc k) (rtts s)"
    by (simp add: Cons_nth_drop_Suc)
  have "d = length (rtts s) - Suc k" using Suc.hyps(2) by simp
  from Suc.hyps(1) [OF this] k
  have IH: "stats_dev s rAvg (int k + 1) a =
           Returns (foldl fadd a
                      (map (\<lambda>x. fmul (fsub (Fin x) rAvg) (fsub (Fin x) rAvg)) (drop (Suc k) (rtts s))))" for a
    by (simp add: add.commute)
  show ?case
    using k assms(1)
    by (subst stats_dev.simps) (simp add: dr Let_def IH del: stats_dev.simps)
qed

lemma stats_nonempty:
  assumes "recv s = int (length (rtts s))" and "rtts s \<noteq> []"
  shows "stats s =
     Returns \<lparr>transmitted = trans_s s, received = recv s,
              loss = fmul (fsub (Fin 1)
                            (fdiv (float64_of_int (recv s)) (float64_of_int (trans_s s))))
                       (Fin 100),
              rttMin = Fin (Min (set (rtts s))),
              rttAvg = spec_mean (rtts s),
              rttMax = Fin (Max (set (rtts s))),
              rttStd = spec_std_dev (rtts s)\<rparr>"
proof -
  from assms(2) obtain x0 xs where xs: "rtts s = x0 # xs"
    by (cases "rtts s") auto
  have pos: "recv s > 0" using assms(1) xs by simp
  have sc: "stats_scan s 1 x0 x0 (Fin x0) =
              Returns (fold min xs x0, fold max xs x0, foldl fadd (Fin x0) (map Fin xs))"
    using stats_scan_fold [OF assms(1), of 1 x0 x0 "Fin x0"] xs by simp
  have dv: "stats_dev s a 0 (Fin 0) =
              Returns (foldl fadd (Fin 0) (map (\<lambda>x. fmul (fsub (Fin x) a) (fsub (Fin x) a)) (rtts s)))" for a
    using stats_dev_fold [OF assms(1), of 0 a "Fin 0"] by simp
  have mn: "fold min xs x0 = Min (set (rtts s))"
    unfolding xs by (rule Min.set_eq_fold [symmetric])
  have mx: "fold max xs x0 = Max (set (rtts s))"
    unfolding xs by (rule Max.set_eq_fold [symmetric])
  have av: "fdiv (foldl fadd (Fin x0) (map Fin xs)) (float64_of_int (recv s)) = spec_mean (rtts s)"
    unfolding spec_mean_def assms(1) xs by simp
  have sd: "fsqrt (fdiv (foldl fadd (Fin 0)
                (map (\<lambda>x. fmul (fsub (Fin x) (spec_mean (rtts s))) (fsub (Fin x) (spec_mean (rtts s))))
                   (rtts s)))
              (float64_of_int (recv s))) = spec_std_dev (rtts s)"
    unfolding spec_std_dev_def assms(1) by simp
  have "stats s =
     Returns \<lparr>transmitted = trans_s s, received = recv s,
              loss = fmul (fsub (Fin 1)
                            (fdiv (float64_of_int (recv s)) (float64_of_int (trans_s s))))
                       (Fin 100),
              rttMin = Fin (fold min xs x0),
              rttAvg = fdiv (foldl fadd (Fin x0) (map Fin xs)) (float64_of_int (recv s)),
              rttMax = Fin (fold max xs x0),
              rttStd = fsqrt (fdiv (foldl fadd (Fin 0)
                (map (\<lambda>x. fmul (fsub (Fin x) (fdiv (foldl fadd (Fin x0) (map Fin xs)) (float64_of_int (recv s))))
                             (fsub (Fin x) (fdiv (foldl fadd (Fin x0) (map Fin xs)) (float64_of_int (recv s)))))
                   (rtts s)))
              (float64_of_int (recv s)))\<rparr>"
    unfolding stats_def Let_def using pos
    by (simp add: xs sc dv [unfolded xs] del: stats_scan.simps stats_dev.simps)
  then show ?thesis
    unfolding av sd mn mx .
qed

lemma stats_empty:
  assumes "recv s \<le> 0"
  shows "stats s = Returns \<lparr>transmitted = trans_s s, received = recv s,
              loss = fmul (fsub (Fin 1)
                            (fdiv (float64_of_int (recv s)) (float64_of_int (trans_s s))))
                       (Fin 100),
              rttMin = Fin 0, rttAvg = Fin 0, rttMax = Fin 0, rttStd = Fin 0\<rparr>"
  using assms by (simp add: stats_def)

text \<open>
  The quotient \<open>200 / 3\<close> and its square root in \<^verbatim>\<open>float64\<close>: the quotient lies between
  \<open>2 ^ 6\<close> and \<open>2 ^ 7\<close> and is rounded to a multiple of \<open>1 / 2 ^ 46\<close>, its root between
  \<open>2 ^ 3\<close> and \<open>2 ^ 4\<close> to a multiple of \<open>1 / 2 ^ 49\<close>, the number that prints as
  8.16496580927726.
\<close>

lemma fl_200_3: "fl (200 / 3) = Fin (4691249611844267 / 2 ^ 46)"
  using fl_round [of "200 * 2 ^ 46 / 3" "- 46"]
  by (simp add: rne_def powr_minus_divide)

lemma fsqrt_200_3_exact:
  "fsqrt (Fin (4691249611844267 / 2 ^ 46)) = Fin (4596467122019239 / 2 ^ 49)"
proof -
  define q where "q = (4691249611844267 / 2 ^ 46 :: real)"
  define y where "y = sqrt q * 2 ^ 49"
  have "((2 * 4596467122019239 - 1) / 2 ^ 50 :: real)\<^sup>2 < q"
    unfolding q_def by (simp add: power2_eq_square)
  then have lo: "(2 * 4596467122019239 - 1) / 2 ^ 50 < sqrt q"
    by (rule real_less_rsqrt)
  have "q < ((2 * 4596467122019239 + 1) / 2 ^ 50 :: real)\<^sup>2"
    unfolding q_def by (simp add: power2_eq_square)
  then have hi: "sqrt q < (2 * 4596467122019239 + 1) / 2 ^ 50"
    by (intro real_less_lsqrt) (simp_all add: q_def)
  have b: "of_int 4596467122019239 - 1 / 2 < y" "y < of_int 4596467122019239 + 1 / 2"
    using lo hi unfolding y_def by simp_all
  have r: "rne y = 4596467122019239"
    using b by (rule rne_nearest)
  have y0: "0 \<le> y"
    unfolding y_def by (simp add: q_def)
  have "2 ^ 52 \<le> \<bar>y\<bar>" "\<bar>y\<bar> < 2 ^ 53"
    using b y0 by simp_all
  from fl_round [OF this, of "- 49"]
  have "fl (y * 2 powr - 49) = Fin (4596467122019239 * 2 powr - 49)"
    unfolding r by simp
  moreover have "y * 2 powr - 49 = sqrt q"
    unfolding y_def by (simp add: powr_minus_divide)
  ultimately have "fl (sqrt q) = Fin (4596467122019239 / 2 ^ 49)"
    by (simp add: powr_minus_divide)
  moreover have "0 \<le> q"
    unfolding q_def by simp
  ultimately show ?thesis
    unfolding q_def [symmetric] by simp
qed

subsection \<open>Rounding in the statistics\<close>

text \<open>
  The mean and the deviation are rounded results, not the exact quotients. For three
  samples equal to the binary64 number nearest to one tenth, \<open>7205759403792794 / 2 ^ 56\<close>,
  the sum of the first two is exact, the sum of the three is a tie that goes to the
  even significand above, and the mean is the next binary64 number above the samples:
  above the maximum, at the distance \<open>1 / 2 ^ 56\<close> that is reported as the deviation.
  For the samples \<open>10 ^ 16\<close>, 1 and 1 both additions are lost to rounding.
\<close>

lemma fl_three_tenths:
  "fl (21617278211378382 / 2 ^ 56) = Fin (5404319552844596 / 2 ^ 54)"
  using fl_round [of "21617278211378382 / 4" "- 54"]
  by (simp add: rne_def powr_minus_divide)

lemma fl_tenth_up:
  "fl (5404319552844596 / 2 ^ 54 / 3) = Fin (7205759403792795 / 2 ^ 56)"
  using fl_round [of "5404319552844596 * 4 / 3" "- 56"]
  by (simp add: rne_def powr_minus_divide)

lemma mean_tenths:
  "spec_mean [7205759403792794 / 2 ^ 56, 7205759403792794 / 2 ^ 56, 7205759403792794 / 2 ^ 56] =
     Fin (7205759403792795 / 2 ^ 56)"
proof -
  have a: "fl (7205759403792794 / 2 ^ 55) = Fin (7205759403792794 / 2 ^ 55)"
    using fl_exact [of 7205759403792794 "- 55"] by (simp add: powr_minus_divide)
  show ?thesis
    using a fl_three_tenths fl_tenth_up
    by (simp add: spec_mean_def float_evals)
qed

lemma sqrt_inverse_power: "sqrt (1 / 2 ^ (2 * n)) = 1 / 2 ^ n"
  by (simp add: real_sqrt_divide power_mult real_sqrt_power)

lemma std_dev_tenths:
  "spec_std_dev [7205759403792794 / 2 ^ 56, 7205759403792794 / 2 ^ 56, 7205759403792794 / 2 ^ 56] =
     Fin (1 / 2 ^ 56)"
proof -
  have d: "fl (- 1 / 2 ^ 56) = Fin (- 1 / 2 ^ 56)"
    using fl_exact [of "- 1" "- 56"] by (simp add: powr_minus_divide)
  have s1: "fl (1 / 2 ^ 112) = Fin (1 / 2 ^ 112)"
    using fl_exact [of 1 "- 112"] by (simp add: powr_minus_divide)
  have s2: "fl (2 / 2 ^ 112) = Fin (2 / 2 ^ 112)"
    using fl_exact [of 2 "- 112"] by (simp add: powr_minus_divide)
  have s3: "fl (3 / 2 ^ 112) = Fin (3 / 2 ^ 112)"
    using fl_exact [of 3 "- 112"] by (simp add: powr_minus_divide)
  have r: "fl (1 / 2 ^ 56) = Fin (1 / 2 ^ 56)"
    using fl_exact [of 1 "- 56"] by (simp add: powr_minus_divide)
  have q: "sqrt (1 / 5192296858534827628530496329220096) = 1 / 72057594037927936"
    using sqrt_inverse_power [of 56] by simp
  show ?thesis
    unfolding spec_std_dev_def mean_tenths
    using d s1 s2 s3 r
    by (simp add: float_evals q)
qed

lemma stats_three_tenths:
  "stats \<lparr>trans_s = 3, recv = 3,
          rtts = [7205759403792794 / 2 ^ 56, 7205759403792794 / 2 ^ 56, 7205759403792794 / 2 ^ 56]\<rparr> =
     Returns \<lparr>transmitted = 3, received = 3, loss = Fin 0,
              rttMin = Fin (7205759403792794 / 2 ^ 56),
              rttAvg = Fin (7205759403792795 / 2 ^ 56),
              rttMax = Fin (7205759403792794 / 2 ^ 56),
              rttStd = Fin (1 / 2 ^ 56)\<rparr>"
  using mean_tenths std_dev_tenths by (simp add: stats_nonempty float_evals)

lemma mean_large_small:
  "spec_mean [10000000000000000, 1, 1] = Fin (6666666666666667 / 2)"
proof -
  have a: "fl 10000000000000001 = Fin 10000000000000000"
    using fl_round [of "10000000000000001 / 2" 1] by (simp add: rne_def)
  have b: "fl (10000000000000000 / 3) = Fin (6666666666666667 / 2)"
    using fl_round [of "20000000000000000 / 3" "- 1"] by (simp add: rne_def powr_minus_divide)
  show ?thesis
    by (simp add: spec_mean_def float_evals a b)
qed

subsection \<open>The statistics block\<close>

text \<open>
  Claim C3, as stated, fails: with nothing transmitted and nothing received the
  loss that \<open>stats\<close> reports is the quotient \<open>0 / 0\<close> of two floats, which is not a
  number, and not zero percent.
\<close>

theorem zero_transmitted_loss_is_not_zero:
  "stats \<lparr>trans_s = 0, recv = 0, rtts = []\<rparr> \<noteq>
     Returns \<lparr>transmitted = 0, received = 0, loss = Fin 0,
              rttMin = Fin 0, rttAvg = Fin 0, rttMax = Fin 0, rttStd = Fin 0\<rparr> \<and>
   stats \<lparr>trans_s = 0, recv = 0, rtts = []\<rparr> =
     Returns \<lparr>transmitted = 0, received = 0, loss = NaN,
              rttMin = Fin 0, rttAvg = Fin 0, rttMax = Fin 0, rttStd = Fin 0\<rparr>"
  by (simp add: stats_def float_evals)

text \<open>
  Claim C3, amended. With \<open>trans = 0\<close> and \<open>recv = 0\<close> the division is not guarded:
  the reported loss is NaN, and the four round-trip fields are zero.
\<close>

theorem zero_transmitted_statistics:
  assumes "trans_s s = 0" and "recv s = 0"
  shows "stats s = Returns \<lparr>transmitted = 0, received = 0, loss = NaN,
                           rttMin = Fin 0, rttAvg = Fin 0, rttMax = Fin 0, rttStd = Fin 0\<rparr>"
  using assms by (simp add: stats_def float_evals)

theorem zero_transmitted_statistics_witness:
  "stats \<lparr>trans_s = 0, recv = 0, rtts = []\<rparr> =
     Returns \<lparr>transmitted = 0, received = 0, loss = NaN,
              rttMin = Fin 0, rttAvg = Fin 0, rttMax = Fin 0, rttStd = Fin 0\<rparr>"
  using zero_transmitted_statistics [of "\<lparr>trans_s = 0, recv = 0, rtts = []\<rparr>"]
  by simp

text \<open>
  Claim C6. For a non-empty sample list of length \<open>recv\<close>, \<open>stats\<close> does not panic
  and reports the least and the greatest sample, as the mean the sum of the
  samples divided by their number, and as the standard deviation the square root
  of the sum of the squared distances to that mean divided by their number, all
  computed in \<^verbatim>\<open>float64\<close>. For the samples \<open>[10, 20, 30]\<close> the mean is 20, the
  minimum 10, the maximum 30, and the standard deviation is the \<^verbatim>\<open>float64\<close>
  \<open>4596467122019239 / 2 ^ 49\<close>, which is within 0.0005 of 8.165.
\<close>

theorem statistics_of_samples:
  assumes "recv s = int (length (rtts s))" and "rtts s \<noteq> []"
  shows "(\<exists>r. stats s = Returns r \<and>
            rttMin r = Fin (Min (set (rtts s))) \<and>
            rttMax r = Fin (Max (set (rtts s))) \<and>
            rttAvg r = spec_mean (rtts s) \<and>
            rttStd r = spec_std_dev (rtts s)) \<and>
         stats \<lparr>trans_s = 3, recv = 3, rtts = [10, 20, 30]\<rparr> =
           Returns \<lparr>transmitted = 3, received = 3, loss = Fin 0,
                    rttMin = Fin 10, rttAvg = Fin 20, rttMax = Fin 30,
                    rttStd = Fin (4596467122019239 / 2 ^ 49)\<rparr> \<and>
         \<bar>4596467122019239 / 2 ^ 49 - 8165 / 1000\<bar> < (5 / 10000 :: real)"
proof (intro conjI)
  from stats_nonempty [OF assms]
  show "\<exists>r. stats s = Returns r \<and>
            rttMin r = Fin (Min (set (rtts s))) \<and>
            rttMax r = Fin (Max (set (rtts s))) \<and>
            rttAvg r = spec_mean (rtts s) \<and>
            rttStd r = spec_std_dev (rtts s)"
    by simp
  have m: "spec_mean [10, 20, 30] = Fin 20"
    by (simp add: spec_mean_def float_evals)
  have "spec_std_dev [10, 20, 30] = fsqrt (fl (200 / 3))"
    unfolding spec_std_dev_def m by (simp add: float_evals)
  then have d: "spec_std_dev [10, 20, 30] = Fin (4596467122019239 / 2 ^ 49)"
    unfolding fl_200_3 fsqrt_200_3_exact .
  show "stats \<lparr>trans_s = 3, recv = 3, rtts = [10, 20, 30]\<rparr> =
          Returns \<lparr>transmitted = 3, received = 3, loss = Fin 0,
                   rttMin = Fin 10, rttAvg = Fin 20, rttMax = Fin 30,
                   rttStd = Fin (4596467122019239 / 2 ^ 49)\<rparr>"
    using m d by (simp add: stats_nonempty float_evals)
  show "\<bar>4596467122019239 / 2 ^ 49 - 8165 / 1000\<bar> < (5 / 10000 :: real)"
    by simp
qed

theorem statistics_of_samples_witness:
  "\<exists>r. stats \<lparr>trans_s = 4, recv = 2, rtts = [5, 1]\<rparr> = Returns r \<and>
     rttMin r = Fin 1 \<and> rttMax r = Fin 5 \<and> rttAvg r = Fin 3 \<and> rttStd r = Fin 2"
proof -
  have m: "spec_mean [5, 1] = Fin 3"
    by (simp add: spec_mean_def float_evals)
  have d: "spec_std_dev [5, 1] = Fin 2"
    unfolding spec_std_dev_def m by (simp add: float_evals)
  from statistics_of_samples [of "\<lparr>trans_s = 4, recv = 2, rtts = [5, 1]\<rparr>", THEN conjunct1]
  show ?thesis
    by (auto simp: m d)
qed

section \<open>The whole program\<close>

lemma stats_inv_returns:
  assumes "stats_inv s"
  shows "\<exists>r. stats s = Returns r"
proof (cases "rtts s = []")
  case True
  with assms have "recv s \<le> 0" by (simp add: stats_inv_def)
  then show ?thesis by (simp add: stats_empty)
next
  case False
  from assms have "recv s = int (length (rtts s))" by (simp add: stats_inv_def)
  from stats_nonempty [OF this False] show ?thesis by blast
qed

lemma main_started:
  assumes "resolve W host = Returns (Some ip, isIPv6)" and "0 \<le> count"
  shows "main sy W count [host] =
     (case (if count \<noteq> 0
            then Some (pingForTimes sy W (ip_String ip) isIPv6 56 count
                         (\<lparr>trans_s = 0, recv = 0, rtts = []\<rparr>, [Banner host (ip_String ip) 56]))
            else pingForever sy W (ip_String ip) isIPv6 56
                   (\<lparr>trans_s = 0, recv = 0, rtts = []\<rparr>, [Banner host (ip_String ip) 56])) of
        None \<Rightarrow> None
      | Some (Panic p) \<Rightarrow> Some (Panic p)
      | Some (Returns (s', out')) \<Rightarrow>
          (case stats s' of
             Panic p \<Rightarrow> Some (Panic p)
           | Returns r \<Rightarrow> Some (Returns (out' @ [Statistics r], Some s'))))"
  using assms by (simp add: main_def Let_def split: option.split outcome.split)

lemma main_run:
  assumes "resolve W host = Returns (Some ip, isIPv6)" and "0 \<le> count"
      and "(if count \<noteq> 0
            then Some (pingForTimes sy W (ip_String ip) isIPv6 56 count
                         (\<lparr>trans_s = 0, recv = 0, rtts = []\<rparr>, [Banner host (ip_String ip) 56]))
            else pingForever sy W (ip_String ip) isIPv6 56
                   (\<lparr>trans_s = 0, recv = 0, rtts = []\<rparr>, [Banner host (ip_String ip) 56])) =
           Some (iterations sy W (ip_String ip) isIPv6 56 0 k
                   (\<lparr>trans_s = 0, recv = 0, rtts = []\<rparr>, [Banner host (ip_String ip) 56]))"
  shows "\<exists>out s r. main sy W count [host] = Some (Returns (out @ [Statistics r], Some s)) \<and>
           trans_s s = int k \<and> probe_seqs out = [0..int k - 1] \<and> statistics_of out = []"
proof -
  let ?st = "(\<lparr>trans_s = 0, recv = 0, rtts = []\<rparr>, [Banner host (ip_String ip) 56])"
  obtain s out where it: "iterations sy W (ip_String ip) isIPv6 56 0 k ?st = Returns (s, out)"
    using iterations_returns [of 56 sy W "ip_String ip" isIPv6 0 k ?st] by force
  have "stats_inv \<lparr>trans_s = 0, recv = 0, rtts = []\<rparr>"
    by (simp add: stats_inv_def)
  with iterations_facts [OF it] upto_map [of 0 k]
  have f: "trans_s s = int k" "probe_seqs out = [0..int k - 1]" "statistics_of out = []" "stats_inv s"
    by simp_all
  from stats_inv_returns [OF f(4)] obtain r where r: "stats s = Returns r"
    by blast
  have "main sy W count [host] = Some (Returns (out @ [Statistics r], Some s))"
    unfolding main_started [OF assms(1,2)] assms(3) it using r by simp
  with f show ?thesis by blast
qed

text \<open>
  \<open>stats\<close> is reached only after a probe: when \<open>main\<close> returns from a run that
  started a loop, something was transmitted.
\<close>

lemma statistics_only_after_a_probe:
  assumes "resolve W host = Returns (Some ip, isIPv6)" and "0 \<le> count"
      and "main sy W count [host] = Some (Returns (out, s))"
  shows "\<exists>s' r. s = Some s' \<and> 1 \<le> trans_s s' \<and> stats s' = Returns r \<and> last out = Statistics r"
proof -
  let ?st = "(\<lparr>trans_s = 0, recv = 0, rtts = []\<rparr>, [Banner host (ip_String ip) 56])"
  from assms(3) obtain s' out' r
    where l: "(if count \<noteq> 0
          then Some (pingForTimes sy W (ip_String ip) isIPv6 56 count ?st)
          else pingForever sy W (ip_String ip) isIPv6 56 ?st) = Some (Returns (s', out'))"
      and o: "out = out' @ [Statistics r]" "s = Some s'" "stats s' = Returns r"
    unfolding main_started [OF assms(1,2)]
    by (auto split: option.splits outcome.splits)
  have "\<exists>k. 0 < k \<and> iterations sy W (ip_String ip) isIPv6 56 0 k ?st = Returns (s', out')"
  proof (cases "count = 0")
    case True
    with l pingForever_from_iterations [of sy W "ip_String ip" isIPv6 56 0 ?st "(s', out')"]
    show ?thesis by (auto simp: pingForever_def)
  next
    case False
    with assms(2) have "0 < count" by simp
    with False l pingForTimes_from_iterations_pos [of sy W "ip_String ip" isIPv6 56 count 0 ?st "(s', out')"]
    show ?thesis by (auto simp: pingForTimes_def)
  qed
  then obtain k where "0 < k" "iterations sy W (ip_String ip) isIPv6 56 0 k ?st = Returns (s', out')"
    by blast
  from iterations_facts [OF this(2)] this(1) have "1 \<le> trans_s s'"
    by simp
  with o show ?thesis by simp
qed

lemma pingForever_from_needs_cancel:
  assumes "pingForever_from sy W ip isIPv6 dataSize i st = Some y" and "48 \<le> dataSize"
  shows "\<exists>k. cancelled W (nat (i + int k))"
proof -
  have "48 \<le> dataSize \<longrightarrow> (\<exists>k. cancelled W (nat (i + int k)))"
  proof (rule pingForever_from.raw_induct
      [where P = "\<lambda>sy W ip isIPv6 dataSize i st y.
          48 \<le> dataSize \<longrightarrow> (\<exists>k. cancelled W (nat (i + int k)))", OF _ assms(1)],
      goal_cases)
    case (1 f sy W ip isIPv6 dataSize i st y)
    show ?case
    proof
      assume d: "48 \<le> dataSize"
      obtain printed ttl rtt err
        where "pingOnce sy (probe W (nat i)) i ip isIPv6 dataSize = Returns (printed, ttl, rtt, err)"
        using pingOnce_returns [OF d] by blast
      from loop_body_Returns [OF this, of "fst st" "snd st"]
      obtain st1 where b: "loop_body sy W ip isIPv6 dataSize i st = Returns st1"
        by auto
      show "\<exists>k. cancelled W (nat (i + int k))"
      proof (cases "cancelled W (nat i)")
        case True
        then show ?thesis by (intro exI [of _ 0]) simp
      next
        case False
        with b "1"(2) have "f sy W ip isIPv6 dataSize (i + 1) st1 = Some y"
          by simp
        from "1"(1) [OF this] d obtain k where "cancelled W (nat (i + 1 + int k))"
          by blast
        then have "cancelled W (nat (i + int (Suc k)))"
          by (simp add: add.commute add.left_commute)
        then show ?thesis by blast
      qed
    qed
  qed
  with assms(2) show ?thesis by blast
qed

lemma pingForever_never_cancelled:
  assumes "\<forall>j. \<not> cancelled W j" and "48 \<le> dataSize"
  shows "pingForever sy W ip isIPv6 dataSize st = None"
proof (cases "pingForever sy W ip isIPv6 dataSize st")
  case None
  then show ?thesis .
next
  case (Some y)
  then have "pingForever_from sy W ip isIPv6 dataSize 0 st = Some y"
    by (simp add: pingForever_def)
  from pingForever_from_needs_cancel [OF this assms(2)] assms(1) show ?thesis
    by blast
qed

text \<open>
  Claim C9. Let the host resolve and the count be non-negative. If the channel
  first holds a value at the poll that ends iteration \<open>c\<close> (the poll follows the
  sleep of that iteration), and the count does not end the loop earlier, then
  \<open>main\<close> returns after exactly \<open>c + 1\<close> probes: sequence number \<open>c + 1\<close> is never
  sent. If the count is positive and no value is seen, \<open>main\<close> returns after
  \<open>count\<close> probes. Whenever \<open>main\<close> returns, its output ends with the statistics
  block and holds no other.
\<close>

theorem cancellation_stops_before_next_probe:
  assumes "resolve W host = Returns (Some ip, isIPv6)" and "0 \<le> count"
  shows "(\<forall>c. cancelled W c \<and> (\<forall>j<c. \<not> cancelled W j) \<and> (count = 0 \<or> int c < count) \<longrightarrow>
            (\<exists>out s r. main sy W count [host] = Some (Returns (out @ [Statistics r], Some s)) \<and>
               trans_s s = int c + 1 \<and> probe_seqs out = [0..int c] \<and> statistics_of out = [])) \<and>
         (0 < count \<and> (\<forall>j<nat count. \<not> cancelled W j) \<longrightarrow>
            (\<exists>out s r. main sy W count [host] = Some (Returns (out @ [Statistics r], Some s)) \<and>
               trans_s s = count \<and> probe_seqs out = [0..count - 1] \<and> statistics_of out = [])) \<and>
         (\<forall>out s. main sy W count [host] = Some (Returns (out, s)) \<longrightarrow>
            (\<exists>out' r. out = out' @ [Statistics r] \<and> statistics_of out' = []))"
proof (intro conjI allI impI)
  let ?st = "(\<lparr>trans_s = 0, recv = 0, rtts = []\<rparr>, [Banner host (ip_String ip) 56])"
  {
    fix c
    assume h: "cancelled W c \<and> (\<forall>j<c. \<not> cancelled W j) \<and> (count = 0 \<or> int c < count)"
    then have c: "cancelled W (nat (0 + int c))" and nc: "\<forall>j<c. \<not> cancelled W (nat (0 + int j))"
      by simp_all
    have "(if count \<noteq> 0
            then Some (pingForTimes sy W (ip_String ip) isIPv6 56 count ?st)
            else pingForever sy W (ip_String ip) isIPv6 56 ?st) =
           Some (iterations sy W (ip_String ip) isIPv6 56 0 (Suc c) ?st)"
    proof (cases "count = 0")
      case True
      then show ?thesis
        unfolding pingForever_def using pingForever_from_cancel [OF c nc] by simp
    next
      case False
      with h have "0 + int c < count" by simp
      from pingForTimes_from_cancel [OF this c nc] False show ?thesis
        unfolding pingForTimes_def by simp
    qed
    from main_run [OF assms this]
    show "\<exists>out s r. main sy W count [host] = Some (Returns (out @ [Statistics r], Some s)) \<and>
               trans_s s = int c + 1 \<and> probe_seqs out = [0..int c] \<and> statistics_of out = []"
      by (simp add: add.commute)
  }
  {
    assume h: "0 < count \<and> (\<forall>j<nat count. \<not> cancelled W j)"
    then have n: "0 + int (nat count) = count" and nc: "\<forall>j<nat count. \<not> cancelled W (nat (0 + int j))"
      by simp_all
    have "(if count \<noteq> 0
            then Some (pingForTimes sy W (ip_String ip) isIPv6 56 count ?st)
            else pingForever sy W (ip_String ip) isIPv6 56 ?st) =
           Some (iterations sy W (ip_String ip) isIPv6 56 0 (nat count) ?st)"
      unfolding pingForTimes_def using pingForTimes_from_exhaust [OF n nc] h by simp
    from main_run [OF assms this] h
    show "\<exists>out s r. main sy W count [host] = Some (Returns (out @ [Statistics r], Some s)) \<and>
               trans_s s = count \<and> probe_seqs out = [0..count - 1] \<and> statistics_of out = []"
      by simp
  }
  {
    fix out s
    assume m: "main sy W count [host] = Some (Returns (out, s))"
    then obtain s' out' r
      where l: "(if count \<noteq> 0
            then Some (pingForTimes sy W (ip_String ip) isIPv6 56 count ?st)
            else pingForever sy W (ip_String ip) isIPv6 56 ?st) = Some (Returns (s', out'))"
        and o: "out = out' @ [Statistics r]"
      unfolding main_started [OF assms]
      by (auto split: option.splits outcome.splits)
    have "\<exists>k. iterations sy W (ip_String ip) isIPv6 56 0 k ?st = Returns (s', out')"
    proof (cases "count = 0")
      case True
      with l pingForever_from_iterations [of sy W "ip_String ip" isIPv6 56 0 ?st "(s', out')"]
      show ?thesis by (auto simp: pingForever_def)
    next
      case False
      with l pingForTimes_from_iterations [of sy W "ip_String ip" isIPv6 56 count 0 ?st "(s', out')"]
      show ?thesis by (auto simp: pingForTimes_def)
    qed
    then obtain k where "iterations sy W (ip_String ip) isIPv6 56 0 k ?st = Returns (s', out')"
      by blast
    from iterations_facts [OF this] have "statistics_of out' = []"
      by simp
    with o show "\<exists>out' r. out = out' @ [Statistics r] \<and> statistics_of out' = []"
      by blast
  }
qed

theorem cancellation_stops_before_next_probe_witness:
  "\<exists>out s r. main demo_sys demo_world 0 [''127.0.0.1''] =
       Some (Returns (out @ [Statistics r], Some s)) \<and>
     trans_s s = 3 \<and> probe_seqs out = [0, 1, 2] \<and> statistics_of out = []"
proof -
  have u: "[0..(2::int)] = [0, 1, 2]"
    by (simp add: upto_rec1)
  have c: "cancelled demo_world 2 \<and> (\<forall>j<2. \<not> cancelled demo_world j) \<and> ((0::int) = 0 \<or> int 2 < 0)"
    by (simp add: demo_world_def)
  from cancellation_stops_before_next_probe [OF demo_resolve, of 0 demo_sys, THEN conjunct1,
      rule_format, OF _ c]
  show ?thesis
    by (simp add: u)
qed

text \<open>
  Claim C7. Let the host resolve. With a negative count \<open>main\<close> prints the banner
  and the message that the count must be positive, and returns with \<open>trans = 0\<close>;
  the result does not depend on what the probes or the channel would do, so no
  probe is made. With count zero \<open>main\<close> runs the unbounded loop, and never returns
  when no value ever shows on the channel.
\<close>

theorem negative_count_exits_before_probing:
  assumes "resolve W host = Returns (Some ip, isIPv6)"
  shows "(count < 0 \<longrightarrow>
            main sy W count [host] =
              Some (Returns ([Banner host (ip_String ip) 56, CountMustBePositive],
                             Some \<lparr>trans_s = 0, recv = 0, rtts = []\<rparr>)) \<and>
            (\<forall>W' :: world. ParseIP W' = ParseIP W \<and> LookupIP W' = LookupIP W \<longrightarrow>
                   main sy W' count [host] = main sy W count [host])) \<and>
         main sy W 0 [host] =
           (case pingForever sy W (ip_String ip) isIPv6 56
                   (\<lparr>trans_s = 0, recv = 0, rtts = []\<rparr>, [Banner host (ip_String ip) 56]) of
              None \<Rightarrow> None
            | Some (Panic p) \<Rightarrow> Some (Panic p)
            | Some (Returns (s', out')) \<Rightarrow>
                (case stats s' of
                   Panic p \<Rightarrow> Some (Panic p)
                 | Returns r \<Rightarrow> Some (Returns (out' @ [Statistics r], Some s')))) \<and>
         ((\<forall>j. \<not> cancelled W j) \<longrightarrow> main sy W 0 [host] = None)"
proof (intro conjI impI allI)
  assume neg: "count < 0"
  show m: "main sy W count [host] =
              Some (Returns ([Banner host (ip_String ip) 56, CountMustBePositive],
                             Some \<lparr>trans_s = 0, recv = 0, rtts = []\<rparr>))"
    using assms neg by (simp add: main_def Let_def)
  fix W' :: world
  assume "ParseIP W' = ParseIP W \<and> LookupIP W' = LookupIP W"
  then have "ParseIP W' host = ParseIP W host" "LookupIP W' host = LookupIP W host"
    by simp_all
  then have "resolve W' host = resolve W host"
    unfolding resolve_def by (simp only:)
  with assms neg show "main sy W' count [host] = main sy W count [host]"
    unfolding m by (simp add: main_def Let_def)
next
  show z: "main sy W 0 [host] =
           (case pingForever sy W (ip_String ip) isIPv6 56
                   (\<lparr>trans_s = 0, recv = 0, rtts = []\<rparr>, [Banner host (ip_String ip) 56]) of
              None \<Rightarrow> None
            | Some (Panic p) \<Rightarrow> Some (Panic p)
            | Some (Returns (s', out')) \<Rightarrow>
                (case stats s' of
                   Panic p \<Rightarrow> Some (Panic p)
                 | Returns r \<Rightarrow> Some (Returns (out' @ [Statistics r], Some s'))))"
    using main_started [OF assms, of 0 sy] by simp
  assume "\<forall>j. \<not> cancelled W j"
  then have "pingForever sy W (ip_String ip) isIPv6 56
                   (\<lparr>trans_s = 0, recv = 0, rtts = []\<rparr>, [Banner host (ip_String ip) 56]) = None"
    by (rule pingForever_never_cancelled) simp
  then show "main sy W 0 [host] = None"
    unfolding z by simp
qed

theorem negative_count_exits_before_probing_witness:
  "main demo_sys demo_world (- 1) [''127.0.0.1''] =
     Some (Returns ([Banner ''127.0.0.1'' ''127.0.0.1'' 56, CountMustBePositive],
                    Some \<lparr>trans_s = 0, recv = 0, rtts = []\<rparr>))"
  using negative_count_exits_before_probing [OF demo_resolve, of "- 1" demo_sys]
  by simp


end
